theory Spec2Isabelle
  imports Complex_Main
begin

section \<open>Portfolio motion system: intro animation and scroll reveal\<close>

text \<open>
  A shallow embedding of \<^verbatim>\<open>public/scripts/animations.js\<close>. The script reads
  \<^verbatim>\<open>data-*\<close> attributes of the elements of a page, writes four inline style properties
  and schedules callbacks with \<^verbatim>\<open>setTimeout\<close>, \<^verbatim>\<open>requestAnimationFrame\<close> and an
  \<^verbatim>\<open>IntersectionObserver\<close>. The page is an explicit state; every closure the script hands
  to the host is a constructor of the datatype \<open>task\<close>, run by \<open>run_task\<close>.
\<close>

subsection \<open>Numbers\<close>

text \<open>
  A JavaScript number is a finite value, an infinity or NaN. Finite values are kept as
  rationals. The script computes with numbers in two places only: \<^verbatim>\<open>i * baseStagger\<close>,
  a product of small integers, and \<^verbatim>\<open>ao - bo\<close>, of which \<^verbatim>\<open>sort\<close> reads the sign; the
  sign of a rounded difference of two doubles is the sign of the exact difference.
\<close>

datatype jsnum = Fin rat | PosInf | NegInf | NaN

fun js_sub :: "jsnum \<Rightarrow> jsnum \<Rightarrow> jsnum" where
  "js_sub (Fin a) (Fin b) = Fin (a - b)"
| "js_sub (Fin a) PosInf = NegInf"
| "js_sub (Fin a) NegInf = PosInf"
| "js_sub PosInf (Fin b) = PosInf"
| "js_sub PosInf NegInf = PosInf"
| "js_sub PosInf PosInf = NaN"
| "js_sub NegInf (Fin b) = NegInf"
| "js_sub NegInf PosInf = NegInf"
| "js_sub NegInf NegInf = NaN"
| "js_sub NaN b = NaN"
| "js_sub a NaN = NaN"

text \<open>\<^verbatim>\<open>v > 0\<close>, the test a sort makes on the value of its comparator.\<close>

fun js_positive :: "jsnum \<Rightarrow> bool" where
  "js_positive (Fin r) = (0 < r)"
| "js_positive PosInf = True"
| "js_positive NegInf = False"
| "js_positive NaN = False"

text \<open>The order of the numbers that are not NaN.\<close>

fun js_less :: "jsnum \<Rightarrow> jsnum \<Rightarrow> bool" where
  "js_less (Fin a) (Fin b) = (a < b)"
| "js_less (Fin a) PosInf = True"
| "js_less NegInf (Fin b) = True"
| "js_less NegInf PosInf = True"
| "js_less a b = False"

text \<open>The numbers that are neither an infinity nor NaN.\<close>

fun js_finite :: "jsnum \<Rightarrow> bool" where
  "js_finite (Fin r) = True"
| "js_finite PosInf = False"
| "js_finite NegInf = False"
| "js_finite NaN = False"

text \<open>
  \<^verbatim>\<open>Number(s)\<close> on a string is the engine's conversion; the model takes it as a parameter
  \<open>N\<close>, so every theorem holds for the conversion of any engine. \<open>decimal\<close> is that
  conversion on unsigned decimal integer literals (NaN elsewhere), used to evaluate the
  model on concrete pages.
\<close>

definition digit_value :: "char \<Rightarrow> nat option" where
  "digit_value c = map_of (zip ''0123456789'' [0, 1, 2, 3, 4, 5, 6, 7, 8, 9]) c"

fun decimal_digits :: "nat \<Rightarrow> string \<Rightarrow> nat option" where
  "decimal_digits acc [] = Some acc"
| "decimal_digits acc (c # cs) =
     (case digit_value c of None \<Rightarrow> None | Some d \<Rightarrow> decimal_digits (10 * acc + d) cs)"

definition decimal :: "string \<Rightarrow> jsnum" where
  "decimal s = (if s = [] then Fin 0
                else case decimal_digits 0 s of None \<Rightarrow> NaN | Some n \<Rightarrow> Fin (of_nat n))"

subsection \<open>Strings\<close>

text \<open>
  \<^verbatim>\<open>toLowerCase\<close> on the letters A to Z. No character outside ASCII lowers to a letter
  of \<^verbatim>\<open>up\<close>, \<^verbatim>\<open>down\<close>, \<^verbatim>\<open>left\<close>, \<^verbatim>\<open>right\<close> or \<^verbatim>\<open>fade\<close>, so the other characters,
  left as they are here, never change which case of the switch is taken.
\<close>

definition lower_char :: "char \<Rightarrow> char" where
  "lower_char c =
     (case map_of (zip ''ABCDEFGHIJKLMNOPQRSTUVWXYZ'' ''abcdefghijklmnopqrstuvwxyz'') c of
        None \<Rightarrow> c | Some l \<Rightarrow> l)"

definition toLowerCase :: "string \<Rightarrow> string" where
  "toLowerCase s = map lower_char s"

text \<open>The decimal digits of a natural number, as a template literal prints \<^verbatim>\<open>${px}\<close>.\<close>

fun show_nat :: "nat \<Rightarrow> string" where
  "show_nat n = (if n < 10 then [''0123456789'' ! n]
                 else show_nat (n div 10) @ [''0123456789'' ! (n mod 10)])"

declare show_nat.simps [simp del]

text \<open>\<^verbatim>\<open>v || d\<close> on the result of \<^verbatim>\<open>getAttribute\<close>: null and the empty string are falsy.\<close>

definition or_else :: "string option \<Rightarrow> string \<Rightarrow> string" where
  "or_else v d = (case v of None \<Rightarrow> d | Some s \<Rightarrow> if s = [] then d else s)"

text \<open>\<^verbatim>\<open>Number(v || 0)\<close>.\<close>

definition number_or_zero :: "(string \<Rightarrow> jsnum) \<Rightarrow> string option \<Rightarrow> jsnum" where
  "number_or_zero N v = (case v of None \<Rightarrow> Fin 0 | Some s \<Rightarrow> if s = [] then Fin 0 else N s)"

subsection \<open>Elements, styles and the page\<close>

text \<open>
  The value of \<^verbatim>\<open>style.transition\<close>: the empty string, the template string that
  \<^verbatim>\<open>animateIn\<close> builds from a duration, an easing and a delay, or whatever the page's
  author wrote.
\<close>

datatype transition_value = NoTransition | Transition nat string jsnum | Authored string

record inline_style =
  opacity :: string
  transform :: string
  willChange :: string
  transition :: transition_value

record element =
  attrs :: "(string \<times> string) list"
  style :: inline_style

definition getAttribute :: "element \<Rightarrow> string \<Rightarrow> string option" where
  "getAttribute el name = map_of (attrs el) name"

text \<open>
  The closures the script hands to the host. An element is named by its position in
  the document.
\<close>

datatype task =
    InitFrame
  | IntroKick nat jsnum nat
  | AnimateFrame nat jsnum nat string
  | ClearStyles nat

record observer_init =
  rootMargin :: string
  threshold :: rat

record page =
  doc :: "element list"
  timers :: "(nat \<times> task) list"
  frames :: "task list"
  observed :: "nat list"
  observer :: "observer_init option"

definition update_style :: "nat \<Rightarrow> (inline_style \<Rightarrow> inline_style) \<Rightarrow> page \<Rightarrow> page" where
  "update_style el f st =
     st\<lparr>doc := (doc st)[el := (doc st ! el)\<lparr>style := f (style (doc st ! el))\<rparr>]\<rparr>"

definition setTimeout :: "nat \<Rightarrow> task \<Rightarrow> page \<Rightarrow> page" where
  "setTimeout ms t st = st\<lparr>timers := timers st @ [(ms, t)]\<rparr>"

definition requestAnimationFrame :: "task \<Rightarrow> page \<Rightarrow> page" where
  "requestAnimationFrame t st = st\<lparr>frames := frames st @ [t]\<rparr>"

definition observe :: "nat \<Rightarrow> page \<Rightarrow> page" where
  "observe el st = (if el \<in> set (observed st) then st else st\<lparr>observed := observed st @ [el]\<rparr>)"

definition unobserve :: "nat \<Rightarrow> page \<Rightarrow> page" where
  "unobserve el st = st\<lparr>observed := removeAll el (observed st)\<rparr>"

text \<open>\<^verbatim>\<open>document.querySelectorAll\<close> on a list of attribute selectors, in document order.\<close>

definition flagged :: "string list \<Rightarrow> element \<Rightarrow> bool" where
  "flagged names el = (\<exists>n \<in> set names. getAttribute el n \<noteq> None)"

definition querySelectorAll :: "string list \<Rightarrow> element list \<Rightarrow> nat list" where
  "querySelectorAll names d = filter (\<lambda>i. flagged names (d ! i)) [0..<length d]"

subsection \<open>Helpers\<close>

definition translateFrom :: "string option \<Rightarrow> nat \<Rightarrow> string" where
  "translateFrom frm px =
     (let k = toLowerCase (or_else frm ''up'') in
      if k = ''down'' then ''translateY(-'' @ show_nat px @ ''px)''
      else if k = ''left'' then ''translateX('' @ show_nat px @ ''px)''
      else if k = ''right'' then ''translateX(-'' @ show_nat px @ ''px)''
      else if k = ''fade'' then ''translateZ(0)''
      else ''translateY('' @ show_nat px @ ''px)'')"

text \<open>The parameter \<^verbatim>\<open>from = 'up'\<close>: \<open>None\<close> is the argument left out.\<close>

definition setInitialState :: "nat \<Rightarrow> string option \<Rightarrow> page \<Rightarrow> page" where
  "setInitialState el frm st =
     (let f = (case frm of None \<Rightarrow> ''up'' | Some s \<Rightarrow> s) in
      update_style el
        (\<lambda>s. s\<lparr>opacity := ''0'', willChange := ''opacity, transform'',
               transform := translateFrom (Some f) 10\<rparr>) st)"

definition default_easing :: string where
  "default_easing = ''cubic-bezier(0.19, 1, 0.22, 1)''"

text \<open>
  \<^verbatim>\<open>animateIn(el, {delay = 0, duration = 800, easing = ...})\<close>: \<open>None\<close> is a field the
  caller leaves out.
\<close>

definition animateIn :: "nat \<Rightarrow> jsnum option \<Rightarrow> nat option \<Rightarrow> string option \<Rightarrow> page \<Rightarrow> page" where
  "animateIn el delay duration easing st =
     requestAnimationFrame
       (AnimateFrame el (case delay of None \<Rightarrow> Fin 0 | Some d \<Rightarrow> d)
          (case duration of None \<Rightarrow> 800 | Some d \<Rightarrow> d)
          (case easing of None \<Rightarrow> default_easing | Some e \<Rightarrow> e)) st"

definition clearTransition :: "nat \<Rightarrow> page \<Rightarrow> page" where
  "clearTransition el st = setTimeout 1100 (ClearStyles el) st"

definition showImmediately :: "nat list \<Rightarrow> page \<Rightarrow> page" where
  "showImmediately nodes st =
     fold (\<lambda>el. update_style el
             (\<lambda>s. s\<lparr>opacity := ''1'', transform := ''none'',
                    transition := NoTransition, willChange := ''''\<rparr>)) nodes st"

subsection \<open>Intro animation\<close>

text \<open>
  \<^verbatim>\<open>Array.prototype.sort\<close> is stable, and sorts by a comparator that is consistent. The
  model is the stable insertion sort: an element moves right past those the comparator
  puts before it (\<^verbatim>\<open>cmp(x, y) > 0\<close>). With a consistent comparator every stable sort
  gives this list. A comparator that returns NaN is not consistent: the order is then
  the engine's own and this function does not give it, so every property that depends on
  the order is stated for keys that are not NaN.
\<close>

fun sort_insert :: "('a \<Rightarrow> 'a \<Rightarrow> jsnum) \<Rightarrow> 'a \<Rightarrow> 'a list \<Rightarrow> 'a list" where
  "sort_insert cmp x [] = [x]"
| "sort_insert cmp x (y # ys) =
     (if js_positive (cmp x y) then y # sort_insert cmp x ys else x # y # ys)"

definition js_sort :: "('a \<Rightarrow> 'a \<Rightarrow> jsnum) \<Rightarrow> 'a list \<Rightarrow> 'a list" where
  "js_sort cmp xs = foldr (sort_insert cmp) xs []"

definition intro_order :: "(string \<Rightarrow> jsnum) \<Rightarrow> element \<Rightarrow> jsnum" where
  "intro_order N el = number_or_zero N (getAttribute el ''data-intro-order'')"

definition intro_cmp :: "(string \<Rightarrow> jsnum) \<Rightarrow> element list \<Rightarrow> nat \<Rightarrow> nat \<Rightarrow> jsnum" where
  "intro_cmp N d a b = js_sub (intro_order N (d ! a)) (intro_order N (d ! b))"

definition baseDuration :: nat where
  "baseDuration = 900"

definition baseStagger :: nat where
  "baseStagger = 220"

text \<open>The body of \<^verbatim>\<open>nodes.forEach((el, i) => ...)\<close>.\<close>

definition intro_delay :: "(string \<Rightarrow> jsnum) \<Rightarrow> element \<Rightarrow> nat \<Rightarrow> jsnum" where
  "intro_delay N e i =
     (case getAttribute e ''data-intro-delay'' of
        None \<Rightarrow> Fin (of_nat (i * baseStagger)) | Some s \<Rightarrow> N s)"

definition intro_body :: "(string \<Rightarrow> jsnum) \<Rightarrow> nat \<Rightarrow> nat \<Rightarrow> page \<Rightarrow> page" where
  "intro_body N el i st =
     (let frm = or_else (getAttribute (doc st ! el) ''data-intro-from'') ''up'';
          delay = intro_delay N (doc st ! el) i
      in setTimeout 20 (IntroKick el delay baseDuration) (setInitialState el (Some frm) st))"

fun intro_forEach :: "(string \<Rightarrow> jsnum) \<Rightarrow> nat list \<Rightarrow> nat \<Rightarrow> page \<Rightarrow> page" where
  "intro_forEach N [] i st = st"
| "intro_forEach N (el # els) i st = intro_forEach N els (Suc i) (intro_body N el i st)"

definition intro_nodes :: "(string \<Rightarrow> jsnum) \<Rightarrow> element list \<Rightarrow> nat list" where
  "intro_nodes N d = js_sort (intro_cmp N d) (querySelectorAll [''data-intro''] d)"

definition runIntro :: "(string \<Rightarrow> jsnum) \<Rightarrow> bool \<Rightarrow> page \<Rightarrow> page" where
  "runIntro N prefersReduced st =
     (let nodes = querySelectorAll [''data-intro''] (doc st) in
      if nodes = [] then st
      else if prefersReduced then showImmediately nodes st
      else intro_forEach N (js_sort (intro_cmp N (doc st)) nodes) 0 st)"

subsection \<open>Scroll reveal\<close>

definition getDynamicThreshold :: "nat list \<Rightarrow> rat" where
  "getDynamicThreshold nodes =
     (let n = length nodes in
      if n > 40 then 0.05 else if n > 20 then 0.1 else 0.15)"

definition reveal_once :: "element \<Rightarrow> bool" where
  "reveal_once e =
     (case getAttribute e ''data-reveal-once'' of None \<Rightarrow> True | Some s \<Rightarrow> s = ''true'')"

text \<open>The body of \<^verbatim>\<open>entries.forEach(entry => ...)\<close>; an entry is its target and
  \<^verbatim>\<open>isIntersecting\<close>.\<close>

definition reveal_entry :: "(string \<Rightarrow> jsnum) \<Rightarrow> nat \<times> bool \<Rightarrow> page \<Rightarrow> page" where
  "reveal_entry N entry st =
     (let el = fst entry in
      if \<not> snd entry then st
      else
        let delay = number_or_zero N (getAttribute (doc st ! el) ''data-reveal-delay'');
            once = reveal_once (doc st ! el);
            st1 = clearTransition el (animateIn el (Some delay) (Some 800) None st)
        in if once then unobserve el st1 else st1)"

definition observer_callback :: "(string \<Rightarrow> jsnum) \<Rightarrow> (nat \<times> bool) list \<Rightarrow> page \<Rightarrow> page" where
  "observer_callback N entries st = fold (reveal_entry N) entries st"

definition setupReveals :: "(string \<Rightarrow> jsnum) \<Rightarrow> bool \<Rightarrow> page \<Rightarrow> page" where
  "setupReveals N prefersReduced st =
     (let targets = querySelectorAll [''data-reveal''] (doc st) in
      if targets = [] then st
      else if prefersReduced then showImmediately targets st
      else
        let st1 = fold (\<lambda>el s. setInitialState el
                      (Some (or_else (getAttribute (doc s ! el) ''data-reveal-from'') ''up'')) s)
                    targets st;
            st2 = st1\<lparr>observer := Some \<lparr>rootMargin = ''0px 0px -10% 0px'',
                                        threshold = getDynamicThreshold targets\<rparr>\<rparr>
        in fold observe targets st2)"

subsection \<open>Script evaluation and the event loop\<close>

text \<open>
  What the script keeps from its evaluation: the engine's \<^verbatim>\<open>Number\<close>, the constant
  \<^verbatim>\<open>prefersReduced\<close>, and whether the \<^verbatim>\<open>change\<close> listener got attached.
\<close>

record script =
  toNumber :: "string \<Rightarrow> jsnum"
  prefersReduced :: bool
  changeSubscribed :: bool

text \<open>
  The host: \<^verbatim>\<open>window.matchMedia\<close> may be missing; the list it returns has
  \<^verbatim>\<open>matches\<close>, and an \<^verbatim>\<open>addEventListener\<close> that is there, is missing, or throws.
\<close>

datatype capability = Supported | Missing | Throws

record mediaQueryList =
  matches :: bool
  addEventListener :: capability

record host =
  number :: "string \<Rightarrow> jsnum"
  matchMedia :: "mediaQueryList option"

datatype js_error = TypeError

text \<open>
  Evaluating the script. Line 23 calls \<^verbatim>\<open>window.matchMedia\<close> outside any
  \<^verbatim>\<open>try\<close>. The subscription is inside one, and behind \<^verbatim>\<open>?.\<close>: a missing method
  is skipped and an exception is caught, both leaving the script without the listener.
\<close>

definition load :: "host \<Rightarrow> js_error + script" where
  "load h =
     (case matchMedia h of
        None \<Rightarrow> Inl TypeError
      | Some mq \<Rightarrow>
          Inr \<lparr>toNumber = number h, prefersReduced = matches mq,
               changeSubscribed = (case addEventListener mq of
                                     Supported \<Rightarrow> True | Missing \<Rightarrow> False | Throws \<Rightarrow> False)\<rparr>)"

text \<open>
  Running a closure. The frame callback of \<^verbatim>\<open>animateIn\<close> assigns the template string to
  \<^verbatim>\<open>style.transition\<close>; the style object takes it when the delay is finite and drops
  the assignment, leaving the property as it was, when the delay prints as
  \<^verbatim>\<open>NaNms\<close> or \<^verbatim>\<open>Infinityms\<close>, which is no time in CSS.
\<close>

fun run_task :: "script \<Rightarrow> task \<Rightarrow> page \<Rightarrow> page" where
  "run_task sc InitFrame st =
     setupReveals (toNumber sc) (prefersReduced sc) (runIntro (toNumber sc) (prefersReduced sc) st)"
| "run_task sc (IntroKick el delay duration) st =
     clearTransition el (animateIn el (Some delay) (Some duration) None st)"
| "run_task sc (AnimateFrame el delay duration easing) st =
     update_style el
       (\<lambda>s. s\<lparr>transition := (if js_finite delay then Transition duration easing delay
                               else transition s),
              opacity := ''1'', transform := ''none''\<rparr>) st"
| "run_task sc (ClearStyles el) st =
     update_style el
       (\<lambda>s. s\<lparr>willChange := '''', transition := NoTransition,
              transform := '''', opacity := ''''\<rparr>) st"

text \<open>
  The events of the host. A timer or a frame callback that fires leaves its queue and
  runs. An intersection notification reaches the callback with the entries of the
  targets the observer is observing. \<^verbatim>\<open>DOMContentLoaded\<close> asks for the frame that
  runs both subsystems.
\<close>

datatype event =
    DOMContentLoaded
  | TimerFires nat
  | FrameFires nat
  | Intersection "(nat \<times> bool) list"
  | ReducedMotionChange

definition drop_nth :: "nat \<Rightarrow> 'a list \<Rightarrow> 'a list" where
  "drop_nth k xs = take k xs @ drop (Suc k) xs"

definition on_change :: "page \<Rightarrow> page" where
  "on_change st = showImmediately (querySelectorAll [''data-intro'', ''data-reveal''] (doc st)) st"

fun step :: "script \<Rightarrow> event \<Rightarrow> page \<Rightarrow> page" where
  "step sc DOMContentLoaded st = requestAnimationFrame InitFrame st"
| "step sc (TimerFires k) st =
     (if k < length (timers st)
      then run_task sc (snd (timers st ! k)) (st\<lparr>timers := drop_nth k (timers st)\<rparr>)
      else st)"
| "step sc (FrameFires k) st =
     (if k < length (frames st)
      then run_task sc (frames st ! k) (st\<lparr>frames := drop_nth k (frames st)\<rparr>)
      else st)"
| "step sc (Intersection entries) st =
     (case observer st of
        None \<Rightarrow> st
      | Some _ \<Rightarrow>
          observer_callback (toNumber sc)
            (filter (\<lambda>e. fst e \<in> set (observed st)) entries) st)"
| "step sc ReducedMotionChange st = (if changeSubscribed sc then on_change st else st)"

definition run :: "script \<Rightarrow> event list \<Rightarrow> page \<Rightarrow> page" where
  "run sc evs st = fold (step sc) evs st"

definition fresh :: "element list \<Rightarrow> page" where
  "fresh d = \<lparr>doc = d, timers = [], frames = [], observed = [], observer = None\<rparr>"

subsection \<open>Example pages and the notions the properties are stated with\<close>

text \<open>
  The order the Intro Runner is to animate in: by the key k, and by position in the
  document where the keys are equal.
\<close>

definition stable_before :: "(nat \<Rightarrow> jsnum) \<Rightarrow> nat \<Rightarrow> nat \<Rightarrow> bool" where
  "stable_before k a b = (js_less (k a) (k b) \<or> (k a = k b \<and> a < b))"

text \<open>The element a closure is about.\<close>

fun task_target :: "task \<Rightarrow> nat option" where
  "task_target InitFrame = None"
| "task_target (IntroKick el delay duration) = Some el"
| "task_target (AnimateFrame el delay duration easing) = Some el"
| "task_target (ClearStyles el) = Some el"

text \<open>
  The page of the usage comment at the head of the script: three intro elements with the
  orders 1, 2, 3 and one reveal element, none with an inline style.
\<close>

definition unstyled :: inline_style where
  "unstyled = \<lparr>opacity = '''', transform = '''', willChange = '''', transition = NoTransition\<rparr>"

definition usage_page :: "element list" where
  "usage_page =
     [\<lparr>attrs = [(''data-intro'', ''''), (''data-intro-order'', ''1'')], style = unstyled\<rparr>,
      \<lparr>attrs = [(''data-intro'', ''''), (''data-intro-order'', ''2'')], style = unstyled\<rparr>,
      \<lparr>attrs = [(''data-intro'', ''''), (''data-intro-order'', ''3'')], style = unstyled\<rparr>,
      \<lparr>attrs = [(''data-reveal'', ''''), (''data-reveal-from'', ''up''),
                (''data-reveal-delay'', ''120'')], style = unstyled\<rparr>]"

text \<open>A script evaluated without the reduced-motion preference, its listener attached.\<close>

definition usage_script :: script where
  "usage_script = \<lparr>toNumber = decimal, prefersReduced = False, changeSubscribed = True\<rparr>"

text \<open>
  Intro elements whose order attributes disagree with the document order; one has no
  order attribute and two tie.
\<close>

definition reordered_page :: "element list" where
  "reordered_page =
     [\<lparr>attrs = [(''data-intro'', ''''), (''data-intro-order'', ''2'')], style = unstyled\<rparr>,
      \<lparr>attrs = [(''data-intro'', '''')], style = unstyled\<rparr>,
      \<lparr>attrs = [(''data-intro'', ''''), (''data-intro-order'', ''1'')], style = unstyled\<rparr>,
      \<lparr>attrs = [(''data-intro'', ''''), (''data-intro-order'', ''2'')], style = unstyled\<rparr>]"

text \<open>The end state, as \<^verbatim>\<open>showImmediately\<close> writes it.\<close>

definition end_state :: "inline_style \<Rightarrow> bool" where
  "end_state s = (opacity s = ''1'' \<and> transform s = ''none'' \<and> transition s = NoTransition
                  \<and> willChange s = '''')"

definition reveal_now :: "inline_style \<Rightarrow> inline_style" where
  "reveal_now s = s\<lparr>opacity := ''1'', transform := ''none'', transition := NoTransition,
                    willChange := ''''\<rparr>"

text \<open>The state \<^verbatim>\<open>setInitialState\<close> leaves an element in, its direction read from attribute a.\<close>

definition initial_state :: "string \<Rightarrow> element \<Rightarrow> bool" where
  "initial_state a e =
     (opacity (style e) = ''0'' \<and> willChange (style e) = ''opacity, transform''
      \<and> transform (style e) = translateFrom (Some (or_else (getAttribute e a) ''up'')) 10)"

text \<open>The loop of \<^verbatim>\<open>setupReveals\<close> that prepares the initial state, for any attribute.\<close>

definition hide_all :: "string \<Rightarrow> nat list \<Rightarrow> page \<Rightarrow> page" where
  "hide_all a els st =
     fold (\<lambda>el s. setInitialState el (Some (or_else (getAttribute (doc s ! el) a) ''up'')) s) els st"

text \<open>A reveal element whose once flag is written with a capital letter.\<close>

definition repeat_page :: "element list" where
  "repeat_page =
     [\<lparr>attrs = [(''data-reveal'', ''''), (''data-reveal-once'', ''True'')], style = unstyled\<rparr>]"

text \<open>
  A page on which nothing is pending and nothing is observed, with the attributes of the
  document d and every flagged element of d in the end state.
\<close>

definition quiet :: "element list \<Rightarrow> page \<Rightarrow> bool" where
  "quiet d st =
     (length (doc st) = length d
      \<and> (\<forall>i n. getAttribute (doc st ! i) n = getAttribute (d ! i) n)
      \<and> timers st = [] \<and> frames st = [] \<and> observed st = [] \<and> observer st = None
      \<and> (\<forall>el < length d. flagged [''data-intro'', ''data-reveal''] (d ! el) \<longrightarrow>
            end_state (style (doc st ! el))))"

text \<open>A script evaluated with the reduced-motion preference active.\<close>

definition reduced_script :: script where
  "reduced_script = \<lparr>toNumber = decimal, prefersReduced = True, changeSubscribed = True\<rparr>"

text \<open>
  A page past initialization: the frame that runs the two subsystems is not pending, and
  elements are observed only by an observer that exists.
\<close>

definition settled :: "page \<Rightarrow> bool" where
  "settled st =
     (InitFrame \<notin> set (frames st) \<and> InitFrame \<notin> snd ` set (timers st)
      \<and> (observer st = None \<longrightarrow> observed st = []))"

text \<open>A host whose media query list has no \<^verbatim>\<open>addEventListener\<close>.\<close>

definition legacy_host :: host where
  "legacy_host = \<lparr>number = decimal,
                   matchMedia = Some \<lparr>matches = False, addEventListener = Missing\<rparr>\<rparr>"

section \<open>Properties\<close>

subsection \<open>Styles, attributes and the direction mapping\<close>

lemma attrs_nth_update_style [simp]: "attrs (doc (update_style el f st) ! i) = attrs (doc st ! i)"
  by (cases "el < length (doc st)") (auto simp: update_style_def nth_list_update not_less list_update_beyond)

lemma attrs_update_style [simp]: "map attrs (doc (update_style el f st)) = map attrs (doc st)"
proof (rule nth_equalityI)
  show "length (map attrs (doc (update_style el f st))) = length (map attrs (doc st))"
    by (simp add: update_style_def)
next
  fix i assume "i < length (map attrs (doc (update_style el f st)))"
  then have "i < length (doc st)" by (simp add: update_style_def)
  then show "map attrs (doc (update_style el f st)) ! i = map attrs (doc st) ! i"
    using attrs_nth_update_style [of el f st i] by (simp add: update_style_def)
qed

lemma length_update_style [simp]: "length (doc (update_style el f st)) = length (doc st)"
  by (simp add: update_style_def)

lemma update_style_fields [simp]:
  "timers (update_style el f st) = timers st"
  "frames (update_style el f st) = frames st"
  "observed (update_style el f st) = observed st"
  "observer (update_style el f st) = observer st"
  by (simp_all add: update_style_def)

lemma style_update_style_same:
  "el < length (doc st) \<Longrightarrow> style (doc (update_style el f st) ! el) = f (style (doc st ! el))"
  by (simp add: update_style_def)

lemma style_update_style_other:
  "i \<noteq> el \<Longrightarrow> doc (update_style el f st) ! i = doc st ! i"
  by (simp add: update_style_def)

lemma getAttribute_update_style [simp]:
  "getAttribute (doc (update_style el f st) ! i) n = getAttribute (doc st ! i) n"
  by (simp add: getAttribute_def)

lemma show_nat_10: "show_nat 10 = ''10''" by (simp add: show_nat.simps)

lemma translateFrom_cases:
  "translateFrom (Some s) 10 =
    (if toLowerCase s = ''down'' then ''translateY(-10px)''
     else if toLowerCase s = ''left'' then ''translateX(10px)''
     else if toLowerCase s = ''right'' then ''translateX(-10px)''
     else if toLowerCase s = ''fade'' then ''translateZ(0)''
     else ''translateY(10px)'')"
  by (cases "s = []") (simp_all add: translateFrom_def or_else_def show_nat_10 toLowerCase_def lower_char_def)

lemma translateFrom_ci:
  "toLowerCase s = toLowerCase t \<Longrightarrow> translateFrom (Some s) px = translateFrom (Some t) px"
  by (cases "s = []"; cases "t = []") (simp_all add: translateFrom_def or_else_def toLowerCase_def)

lemma translateFrom_fallback:
  "toLowerCase s \<notin> {''down'', ''left'', ''right'', ''fade''} \<Longrightarrow> translateFrom (Some s) px = translateFrom (Some ''up'') px"
  by (cases "s = []") (simp_all add: translateFrom_def or_else_def toLowerCase_def lower_char_def)

lemma translateFrom_absent: "translateFrom None px = translateFrom (Some ''up'') px"
    "translateFrom (Some []) px = translateFrom (Some ''up'') px"
  by (simp_all add: translateFrom_def or_else_def)

lemma setInitialState_fields [simp]:
  "timers (setInitialState el frm st) = timers st"
  "frames (setInitialState el frm st) = frames st"
  "observed (setInitialState el frm st) = observed st"
  "observer (setInitialState el frm st) = observer st"
  "length (doc (setInitialState el frm st)) = length (doc st)"
  "getAttribute (doc (setInitialState el frm st) ! i) n = getAttribute (doc st ! i) n"
  by (simp_all add: setInitialState_def Let_def)

lemma setInitialState_other:
  "i \<noteq> el \<Longrightarrow> doc (setInitialState el frm st) ! i = doc st ! i"
  by (simp add: setInitialState_def Let_def style_update_style_other)

lemma setInitialState_same:
  "el < length (doc st) \<Longrightarrow>
   style (doc (setInitialState el (Some f) st) ! el) =
     (style (doc st ! el))\<lparr>opacity := ''0'', willChange := ''opacity, transform'',
        transform := translateFrom (Some f) 10\<rparr>"
  by (simp add: setInitialState_def style_update_style_same)

subsection \<open>The intro loop and the sort\<close>

lemma intro_body_fields [simp]:
  "timers (intro_body N el i st) =
     timers st @ [(20, IntroKick el (intro_delay N (doc st ! el) i) baseDuration)]"
  "frames (intro_body N el i st) = frames st"
  "observed (intro_body N el i st) = observed st"
  "observer (intro_body N el i st) = observer st"
  "length (doc (intro_body N el i st)) = length (doc st)"
  "getAttribute (doc (intro_body N el i st) ! k) n = getAttribute (doc st ! k) n"
  by (simp_all add: intro_body_def Let_def setTimeout_def)

lemma intro_delay_cong:
  "(\<And>n. getAttribute e n = getAttribute e' n) \<Longrightarrow> intro_delay N e i = intro_delay N e' i"
  by (simp add: intro_delay_def)

lemma intro_forEach_getAttribute [simp]:
  "getAttribute (doc (intro_forEach N els i st) ! k) n = getAttribute (doc st ! k) n"
  by (induction els arbitrary: i st) simp_all

lemma intro_forEach_fields [simp]:
  "frames (intro_forEach N els i st) = frames st"
  "observed (intro_forEach N els i st) = observed st"
  "observer (intro_forEach N els i st) = observer st"
  "length (doc (intro_forEach N els i st)) = length (doc st)"
  by (induction els arbitrary: i st) simp_all

lemma intro_forEach_timers:
  "timers (intro_forEach N els i st) =
     timers st @ map (\<lambda>(j, el). (20, IntroKick el (intro_delay N (doc st ! el) j) baseDuration))
                   (enumerate i els)"
proof (induction els arbitrary: i st)
  case Nil
  show ?case by simp
next
  case (Cons el els)
  have same: "\<And>k j. intro_delay N (doc (intro_body N el i st) ! k) j = intro_delay N (doc st ! k) j"
    by (rule intro_delay_cong) simp
  show ?case
    by (simp add: Cons.IH same)
qed

lemma set_sort_insert [simp]: "set (sort_insert c x xs) = insert x (set xs)"
  by (induction xs) auto

lemma length_sort_insert [simp]: "length (sort_insert c x xs) = Suc (length xs)"
  by (induction xs) auto

lemma distinct_sort_insert: "distinct xs \<Longrightarrow> x \<notin> set xs \<Longrightarrow> distinct (sort_insert c x xs)"
  by (induction xs) auto

lemma js_sort_Cons: "js_sort c (x # xs) = sort_insert c x (js_sort c xs)"
  by (simp add: js_sort_def)

lemma js_sort_Nil [simp]: "js_sort c [] = []"
  by (simp add: js_sort_def)

lemma set_js_sort [simp]: "set (js_sort c xs) = set xs"
  by (induction xs) (simp_all add: js_sort_Cons)

lemma length_js_sort [simp]: "length (js_sort c xs) = length xs"
  by (induction xs) (simp_all add: js_sort_Cons)

lemma distinct_js_sort: "distinct xs \<Longrightarrow> distinct (js_sort c xs)"
  by (induction xs) (simp_all add: js_sort_Cons distinct_sort_insert)

lemma js_positive_sub:
  "x \<noteq> NaN \<Longrightarrow> y \<noteq> NaN \<Longrightarrow> js_positive (js_sub x y) = js_less y x"
  by (cases x; cases y) simp_all

lemma js_less_trans: "js_less a b \<Longrightarrow> js_less b c \<Longrightarrow> js_less a c"
  by (cases a; cases b; cases c) simp_all

lemma js_less_linear: "a \<noteq> NaN \<Longrightarrow> b \<noteq> NaN \<Longrightarrow> js_less a b \<or> a = b \<or> js_less b a"
  by (cases a; cases b) auto

lemma js_less_irrefl [simp]: "\<not> js_less a a"
  by (cases a) simp_all

lemma js_less_asym: "js_less a b \<Longrightarrow> \<not> js_less b a"
  by (cases a; cases b) simp_all

lemma sorted_sort_insert:
  assumes "sorted_wrt (stable_before k) ys" "\<forall>y \<in> set ys. x < y"
    "k x \<noteq> NaN" "\<forall>y \<in> set ys. k y \<noteq> NaN"
  shows "sorted_wrt (stable_before k) (sort_insert (\<lambda>a b. js_sub (k a) (k b)) x ys)"
  using assms
proof (induction ys)
  case Nil
  show ?case by simp
next
  case (Cons y ys)
  show ?case
  proof (cases "js_less (k y) (k x)")
    case True
    then have "stable_before k y x" by (simp add: stable_before_def)
    with Cons True show ?thesis by (simp add: js_positive_sub)
  next
    case False
    with Cons.prems have le: "k x = k y \<or> js_less (k x) (k y)"
      using js_less_linear [of "k x" "k y"] by auto
    have xy: "stable_before k x y"
      using le Cons.prems(2) by (auto simp: stable_before_def)
    have "stable_before k x z" if z: "z \<in> set ys" for z
    proof -
      from Cons.prems(1) z have "stable_before k y z" by simp
      moreover from Cons.prems(2) z have "x < z" by simp
      ultimately show ?thesis
        using le by (auto simp: stable_before_def intro: js_less_trans)
    qed
    with xy Cons.prems(1) False Cons.prems(3,4) show ?thesis
      by (simp add: js_positive_sub)
  qed
qed

lemma sorted_js_sort:
  assumes "sorted_wrt (<) xs" "\<forall>x \<in> set xs. k x \<noteq> NaN"
  shows "sorted_wrt (stable_before k) (js_sort (\<lambda>a b. js_sub (k a) (k b)) xs)"
  using assms
proof (induction xs)
  case Nil
  show ?case by simp
next
  case (Cons x xs)
  then show ?case
    by (simp add: js_sort_Cons sorted_sort_insert)
qed

lemma querySelectorAll_sorted: "sorted_wrt (<) (querySelectorAll names d)"
  by (simp add: querySelectorAll_def sorted_wrt_filter)

lemma querySelectorAll_distinct: "distinct (querySelectorAll names d)"
  by (simp add: querySelectorAll_def)

lemma set_querySelectorAll:
  "set (querySelectorAll names d) = {i. i < length d \<and> flagged names (d ! i)}"
  by (auto simp: querySelectorAll_def)

lemma runIntro_timers:
  "timers (runIntro N False st) =
     timers st @ map (\<lambda>(j, el). (20, IntroKick el (intro_delay N (doc st ! el) j) baseDuration))
                   (enumerate 0 (intro_nodes N (doc st)))"
  by (simp add: runIntro_def Let_def intro_nodes_def intro_forEach_timers)

lemma runIntro_fields [simp]:
  "frames (runIntro N False st) = frames st"
  "observed (runIntro N False st) = observed st"
  "observer (runIntro N False st) = observer st"
  "length (doc (runIntro N False st)) = length (doc st)"
  "getAttribute (doc (runIntro N False st) ! k) n = getAttribute (doc st ! k) n"
  by (simp_all add: runIntro_def Let_def)

lemma intro_nodes_bound: "el \<in> set (intro_nodes N d) \<Longrightarrow> el < length d"
  by (simp add: intro_nodes_def set_querySelectorAll)

text \<open>
  C1. In the Intro Runner, the element at zero-based index \<open>i\<close> of the sorted list gets the
  delay \<open>i * 220\<close> when it has no \<^verbatim>\<open>data-intro-delay\<close> attribute and the numeric value
  of the attribute when it has one, and in both cases the duration 900: this is the
  closure \<^verbatim>\<open>runIntro\<close> hands to \<^verbatim>\<open>setTimeout\<close>, the frame callback that closure asks
  for, and, the delay being finite, the transition that callback writes on the element.
  The order attributes are numeric: none converts to NaN, on which the order of
  \<^verbatim>\<open>sort\<close>, and with it the index of an element, is the engine's.
\<close>

theorem intro_delay_duration:
  assumes i: "i < length (intro_nodes N (doc st))"
      and numeric: "\<forall>el \<in> set (querySelectorAll [''data-intro''] (doc st)).
                      intro_order N (doc st ! el) \<noteq> NaN"
  shows "let el = intro_nodes N (doc st) ! i;
             delay = (case getAttribute (doc st ! el) ''data-intro-delay'' of
                        None \<Rightarrow> Fin (of_nat i * 220) | Some s \<Rightarrow> N s);
             st1 = runIntro N False st;
             st2 = step sc (TimerFires (length (timers st) + i)) st1;
             st3 = step sc (FrameFires (length (frames st))) st2
         in timers st1 ! (length (timers st) + i) = (20, IntroKick el delay 900)
          \<and> frames st2 = frames st @ [AnimateFrame el delay 900 default_easing]
          \<and> (js_finite delay \<longrightarrow>
               transition (style (doc st3 ! el)) = Transition 900 default_easing delay)"
proof -
  define el where "el = intro_nodes N (doc st) ! i"
  define delay where "delay = (case getAttribute (doc st ! el) ''data-intro-delay'' of
                        None \<Rightarrow> Fin (of_nat i * 220) | Some s \<Rightarrow> N s)"
  define st1 where "st1 = runIntro N False st"
  define st2 where "st2 = step sc (TimerFires (length (timers st) + i)) st1"
  define st3 where "st3 = step sc (FrameFires (length (frames st))) st2"
  have el: "el < length (doc st)"
    unfolding el_def by (rule intro_nodes_bound [OF nth_mem [OF i]])
  have d: "intro_delay N (doc st ! el) i = delay"
    by (simp add: intro_delay_def delay_def baseStagger_def split: option.split)
  have t1: "timers st1 ! (length (timers st) + i) = (20, IntroKick el delay 900)"
    using i by (simp add: st1_def runIntro_timers nth_enumerate_eq el_def [symmetric] d baseDuration_def)
  have len: "length (timers st) + i < length (timers st1)"
    using i by (simp add: st1_def runIntro_timers)
  have st2_eq: "st2 = clearTransition el (animateIn el (Some delay) (Some 900) None
                        (st1\<lparr>timers := drop_nth (length (timers st) + i) (timers st1)\<rparr>))"
    using len t1 by (simp add: st2_def)
  have f2: "frames st2 = frames st @ [AnimateFrame el delay 900 default_easing]"
    by (simp add: st2_eq clearTransition_def animateIn_def setTimeout_def
        requestAnimationFrame_def st1_def)
  have doc2: "length (doc st2) = length (doc st)"
    by (simp add: st2_eq clearTransition_def animateIn_def setTimeout_def
        requestAnimationFrame_def st1_def)
  have t3: "js_finite delay \<longrightarrow>
              transition (style (doc st3 ! el)) = Transition 900 default_easing delay"
    using el by (simp add: st3_def f2 doc2 style_update_style_same)
  show ?thesis
    using t1 f2 t3
    unfolding Let_def el_def [symmetric] delay_def [symmetric] st1_def [symmetric]
      st2_def [symmetric] st3_def [symmetric]
    by simp
qed

lemma usage_intro_nodes: "intro_nodes decimal usage_page = [0, 1, 2]"
  by (simp add: intro_nodes_def querySelectorAll_def flagged_def getAttribute_def usage_page_def
      js_sort_def intro_cmp_def intro_order_def number_or_zero_def decimal_def digit_value_def
      )

theorem intro_delay_duration_witness:
  "1 < length (intro_nodes decimal (doc (fresh usage_page)))
   \<and> map (\<lambda>el. intro_order decimal (doc (fresh usage_page) ! el))
        (querySelectorAll [''data-intro''] (doc (fresh usage_page))) = [Fin 1, Fin 2, Fin 3]
   \<and> timers (runIntro decimal False (fresh usage_page)) ! 1 = (20, IntroKick 1 (Fin 220) 900)
   \<and> js_finite (Fin 220)
   \<and> transition (style (doc (step usage_script (FrameFires 0)
                              (step usage_script (TimerFires 1)
                                 (runIntro decimal False (fresh usage_page)))) ! 1)) =
       Transition 900 default_easing (Fin 220)"
proof -
  have h: "1 < length (intro_nodes decimal (doc (fresh usage_page)))"
    by (simp add: fresh_def usage_intro_nodes)
  have sel: "querySelectorAll [''data-intro''] usage_page = [0, 1, 2]"
    by (simp add: querySelectorAll_def flagged_def getAttribute_def usage_page_def)
  have ord: "intro_order decimal (usage_page ! 0) = Fin 1"
    "intro_order decimal (usage_page ! Suc 0) = Fin 2"
    "intro_order decimal (usage_page ! 2) = Fin 3"
    by (simp_all add: usage_page_def intro_order_def number_or_zero_def getAttribute_def
        decimal_def digit_value_def)
  have n: "\<forall>el \<in> set (querySelectorAll [''data-intro''] (doc (fresh usage_page))).
             intro_order decimal (doc (fresh usage_page) ! el) \<noteq> NaN"
    by (simp add: fresh_def sel ord)
  have a: "getAttribute (usage_page ! Suc 0) ''data-intro-delay'' = None"
    by (simp add: usage_page_def getAttribute_def)
  from intro_delay_duration [OF h n, of usage_script]
  show ?thesis
    using h unfolding Let_def
    by (simp add: fresh_def usage_intro_nodes sel ord a del: step.simps)
qed

lemma stable_before_eq:
  "stable_before k = (\<lambda>a b. js_less (k a) (k b) \<or> (k a = k b \<and> a < b))"
  by (rule ext, rule ext) (simp add: stable_before_def)

lemma intro_nodes_sorted:
  assumes "\<forall>el \<in> set (querySelectorAll [''data-intro''] d). intro_order N (d ! el) \<noteq> NaN"
  shows "sorted_wrt (stable_before (\<lambda>a. intro_order N (d ! a))) (intro_nodes N d)"
proof -
  have "intro_cmp N d = (\<lambda>a b. js_sub (intro_order N (d ! a)) (intro_order N (d ! b)))"
    by (rule ext, rule ext) (simp add: intro_cmp_def)
  then show ?thesis
    using sorted_js_sort [OF querySelectorAll_sorted, of "[''data-intro'']" d "\<lambda>a. intro_order N (d ! a)"] assms
    by (simp add: intro_nodes_def)
qed

lemma runIntro_targets:
  "map (task_target \<circ> snd) (drop (length (timers st)) (timers (runIntro N False st))) =
     map Some (intro_nodes N (doc st))"
proof -
  have "map (\<lambda>x. Some (snd x)) (enumerate 0 xs) = map Some xs" for xs :: "nat list"
    by (simp add: enumerate_eq_zip map_snd_zip_take flip: map_map [of Some snd, unfolded comp_def])
  then show ?thesis
    by (simp add: runIntro_timers comp_def case_prod_unfold)
qed

text \<open>
  C2. The Intro Runner animates the flagged elements in ascending order of the numeric
  value of \<^verbatim>\<open>data-intro-order\<close>, a missing attribute counting as 0, and elements of equal
  order in document order. The order attributes are numeric: none converts to NaN, on
  which the comparator is not consistent and the order of \<^verbatim>\<open>sort\<close> is the engine's.
\<close>

theorem intro_order_stable:
  assumes "\<forall>el \<in> set (querySelectorAll [''data-intro''] (doc st)). intro_order N (doc st ! el) \<noteq> NaN"
  shows "map (task_target \<circ> snd) (drop (length (timers st)) (timers (runIntro N False st))) =
           map Some (intro_nodes N (doc st))
       \<and> set (intro_nodes N (doc st)) = set (querySelectorAll [''data-intro''] (doc st))
       \<and> distinct (intro_nodes N (doc st))
       \<and> sorted_wrt (\<lambda>a b. js_less (intro_order N (doc st ! a)) (intro_order N (doc st ! b))
                          \<or> (intro_order N (doc st ! a) = intro_order N (doc st ! b) \<and> a < b))
           (intro_nodes N (doc st))
       \<and> (\<forall>e. getAttribute e ''data-intro-order'' = None \<longrightarrow> intro_order N e = Fin 0)"
proof -
  have "sorted_wrt (\<lambda>a b. js_less (intro_order N (doc st ! a)) (intro_order N (doc st ! b))
                          \<or> (intro_order N (doc st ! a) = intro_order N (doc st ! b) \<and> a < b))
           (intro_nodes N (doc st))"
    using intro_nodes_sorted [OF assms] by (simp add: stable_before_eq)
  moreover have "distinct (intro_nodes N (doc st))"
    by (simp add: intro_nodes_def distinct_js_sort querySelectorAll_distinct)
  moreover have "set (intro_nodes N (doc st)) = set (querySelectorAll [''data-intro''] (doc st))"
    by (simp add: intro_nodes_def)
  moreover have "\<forall>e. getAttribute e ''data-intro-order'' = None \<longrightarrow> intro_order N e = Fin 0"
    by (simp add: intro_order_def number_or_zero_def)
  ultimately show ?thesis
    using runIntro_targets [of st N] by simp
qed

lemma reordered_selected: "querySelectorAll [''data-intro''] reordered_page = [0, 1, 2, 3]"
  by (simp add: querySelectorAll_def flagged_def getAttribute_def reordered_page_def)

lemma reordered_orders:
  "intro_order decimal (reordered_page ! 0) = Fin 2"
  "intro_order decimal (reordered_page ! Suc 0) = Fin 0"
  "intro_order decimal (reordered_page ! 1) = Fin 0"
  "intro_order decimal (reordered_page ! 2) = Fin 1"
  "intro_order decimal (reordered_page ! 3) = Fin 2"
  by (simp_all add: reordered_page_def intro_order_def number_or_zero_def getAttribute_def
      decimal_def digit_value_def)

lemma reordered_intro_nodes: "intro_nodes decimal reordered_page = [1, 2, 0, 3]"
  by (simp add: intro_nodes_def reordered_selected js_sort_def intro_cmp_def reordered_orders)

theorem intro_order_stable_witness:
  "map (\<lambda>el. intro_order decimal (doc (fresh reordered_page) ! el))
     (querySelectorAll [''data-intro''] (doc (fresh reordered_page))) = [Fin 2, Fin 0, Fin 1, Fin 2]
   \<and> map (task_target \<circ> snd) (timers (runIntro decimal False (fresh reordered_page))) =
       [Some 1, Some 2, Some 0, Some 3]"
proof -
  have h: "\<forall>el \<in> set (querySelectorAll [''data-intro''] (doc (fresh reordered_page))).
      intro_order decimal (doc (fresh reordered_page) ! el) \<noteq> NaN"
    by (simp add: fresh_def reordered_selected reordered_orders)
  from intro_order_stable [OF h] show ?thesis
    by (simp add: fresh_def reordered_intro_nodes reordered_selected reordered_orders)
qed

subsection \<open>Reduced motion and the initial state\<close>

lemma end_state_reveal_now [simp]: "end_state (reveal_now s)"
  by (simp add: end_state_def reveal_now_def)

lemma showImmediately_Nil [simp]: "showImmediately [] st = st"
  by (simp add: showImmediately_def)

lemma showImmediately_Cons:
  "showImmediately (x # xs) st = showImmediately xs (update_style x reveal_now st)"
  by (simp add: showImmediately_def reveal_now_def [abs_def])

lemma showImmediately_fields [simp]:
  "timers (showImmediately nodes st) = timers st"
  "frames (showImmediately nodes st) = frames st"
  "observed (showImmediately nodes st) = observed st"
  "observer (showImmediately nodes st) = observer st"
  "length (doc (showImmediately nodes st)) = length (doc st)"
  "getAttribute (doc (showImmediately nodes st) ! i) n = getAttribute (doc st ! i) n"
  by (induction nodes arbitrary: st) (simp_all add: showImmediately_Cons)

lemma update_style_beyond:
  "\<not> el < length (doc st) \<Longrightarrow> doc (update_style el f st) = doc st"
  by (simp add: update_style_def not_less list_update_beyond)

lemma update_style_end_state:
  "end_state (style (doc st ! el)) \<Longrightarrow> end_state (style (doc (update_style x reveal_now st) ! el))"
  by (cases "x = el"; cases "x < length (doc st)")
     (simp_all add: style_update_style_same style_update_style_other update_style_beyond)

lemma showImmediately_keeps:
  "end_state (style (doc st ! el)) \<Longrightarrow> end_state (style (doc (showImmediately nodes st) ! el))"
  by (induction nodes arbitrary: st) (simp_all add: showImmediately_Cons update_style_end_state)

lemma showImmediately_reveals:
  "el \<in> set nodes \<Longrightarrow> el < length (doc st) \<Longrightarrow>
   end_state (style (doc (showImmediately nodes st) ! el))"
proof (induction nodes arbitrary: st)
  case Nil
  then show ?case by simp
next
  case (Cons x xs)
  show ?case
  proof (cases "x = el")
    case True
    with Cons.prems have "end_state (style (doc (update_style x reveal_now st) ! el))"
      by (simp add: style_update_style_same)
    then show ?thesis
      by (simp add: showImmediately_Cons showImmediately_keeps)
  next
    case False
    with Cons show ?thesis
      by (simp add: showImmediately_Cons)
  qed
qed

lemma showImmediately_other:
  "el \<notin> set nodes \<Longrightarrow> doc (showImmediately nodes st) ! el = doc st ! el"
  by (induction nodes arbitrary: st) (simp_all add: showImmediately_Cons style_update_style_other)

lemma initial_state_cong:
  "style e = style e' \<Longrightarrow> getAttribute e a = getAttribute e' a \<Longrightarrow>
   initial_state a e = initial_state a e'"
  by (simp add: initial_state_def)

lemma setInitialState_establishes:
  "el < length (doc st) \<Longrightarrow>
   initial_state a (doc (setInitialState el (Some (or_else (getAttribute (doc st ! el) a) ''up'')) st) ! el)"
  by (simp add: initial_state_def setInitialState_same)

lemma setInitialState_keeps:
  assumes "initial_state a (doc st ! el)" "el < length (doc st)"
  shows "initial_state a (doc (setInitialState x (Some (or_else (getAttribute (doc st ! x) a) ''up'')) st) ! el)"
proof (cases "x = el")
  case True
  with assms(2) show ?thesis by (simp add: setInitialState_establishes)
next
  case False
  then show ?thesis using assms(1) by (simp add: setInitialState_other)
qed

lemma hide_all_Nil [simp]: "hide_all a [] st = st"
  by (simp add: hide_all_def)

lemma hide_all_Cons:
  "hide_all a (x # xs) st =
     hide_all a xs (setInitialState x (Some (or_else (getAttribute (doc st ! x) a) ''up'')) st)"
  by (simp add: hide_all_def)

lemma hide_all_fields [simp]:
  "timers (hide_all a els st) = timers st"
  "frames (hide_all a els st) = frames st"
  "observed (hide_all a els st) = observed st"
  "observer (hide_all a els st) = observer st"
  "length (doc (hide_all a els st)) = length (doc st)"
  "getAttribute (doc (hide_all a els st) ! i) n = getAttribute (doc st ! i) n"
  by (induction els arbitrary: st) (simp_all add: hide_all_Cons)

lemma hide_all_keeps:
  "initial_state a (doc st ! el) \<Longrightarrow> el < length (doc st) \<Longrightarrow>
   initial_state a (doc (hide_all a els st) ! el)"
  by (induction els arbitrary: st) (simp_all add: hide_all_Cons setInitialState_keeps)

lemma hide_all_establishes:
  "el \<in> set els \<Longrightarrow> el < length (doc st) \<Longrightarrow> initial_state a (doc (hide_all a els st) ! el)"
proof (induction els arbitrary: st)
  case Nil
  then show ?case by simp
next
  case (Cons x xs)
  show ?case
  proof (cases "x = el")
    case True
    with Cons.prems show ?thesis
      by (simp add: hide_all_Cons hide_all_keeps setInitialState_establishes)
  next
    case False
    with Cons show ?thesis by (simp add: hide_all_Cons)
  qed
qed

lemma observe_fields [simp]:
  "timers (observe el st) = timers st"
  "frames (observe el st) = frames st"
  "doc (observe el st) = doc st"
  "observer (observe el st) = observer st"
  "set (observed (observe el st)) = insert el (set (observed st))"
  by (auto simp: observe_def)

lemma fold_observe_fields [simp]:
  "timers (fold observe els st) = timers st"
  "frames (fold observe els st) = frames st"
  "doc (fold observe els st) = doc st"
  "observer (fold observe els st) = observer st"
  "set (observed (fold observe els st)) = set (observed st) \<union> set els"
  by (induction els arbitrary: st) simp_all

lemma setupReveals_unfold:
  "setupReveals N False st =
     (let targets = querySelectorAll [''data-reveal''] (doc st) in
      if targets = [] then st
      else fold observe targets
             ((hide_all ''data-reveal-from'' targets st)
                \<lparr>observer := Some \<lparr>rootMargin = ''0px 0px -10% 0px'',
                                   threshold = getDynamicThreshold targets\<rparr>\<rparr>))"
  by (simp add: setupReveals_def hide_all_def Let_def)

lemma setupReveals_reduced:
  "setupReveals N True st = showImmediately (querySelectorAll [''data-reveal''] (doc st)) st"
  by (simp add: setupReveals_def Let_def)

lemma setupReveals_fields [simp]:
  "timers (setupReveals N pr st) = timers st"
  "frames (setupReveals N pr st) = frames st"
  "length (doc (setupReveals N pr st)) = length (doc st)"
  "getAttribute (doc (setupReveals N pr st) ! i) n = getAttribute (doc st ! i) n"
proof -
  show "timers (setupReveals N pr st) = timers st"
    by (cases pr) (simp_all add: setupReveals_unfold setupReveals_reduced Let_def)
  show "frames (setupReveals N pr st) = frames st"
    by (cases pr) (simp_all add: setupReveals_unfold setupReveals_reduced Let_def)
  show "length (doc (setupReveals N pr st)) = length (doc st)"
    by (cases pr) (simp_all add: setupReveals_unfold setupReveals_reduced Let_def)
  show "getAttribute (doc (setupReveals N pr st) ! i) n = getAttribute (doc st ! i) n"
    by (cases pr) (simp_all add: setupReveals_unfold setupReveals_reduced Let_def)
qed

lemma setupReveals_observed:
  "set (observed (setupReveals N False st)) =
     set (observed st) \<union> set (querySelectorAll [''data-reveal''] (doc st))"
  by (simp add: setupReveals_unfold Let_def)

lemma setupReveals_observer:
  "querySelectorAll [''data-reveal''] (doc st) \<noteq> [] \<Longrightarrow>
   observer (setupReveals N False st) =
     Some \<lparr>rootMargin = ''0px 0px -10% 0px'',
           threshold = getDynamicThreshold (querySelectorAll [''data-reveal''] (doc st))\<rparr>"
  by (simp add: setupReveals_unfold Let_def)

lemma setupReveals_initial:
  assumes "el \<in> set (querySelectorAll [''data-reveal''] (doc st))"
  shows "initial_state ''data-reveal-from'' (doc (setupReveals N False st) ! el)"
proof -
  from assms have "el < length (doc st)" by (simp add: set_querySelectorAll)
  with assms show ?thesis
    by (auto simp: setupReveals_unfold Let_def hide_all_establishes)
qed

lemma runIntro_reduced:
  "runIntro N True st = showImmediately (querySelectorAll [''data-intro''] (doc st)) st"
  by (simp add: runIntro_def Let_def)

lemma doc_intro_body:
  "doc (intro_body N el i st) =
     doc (setInitialState el (Some (or_else (getAttribute (doc st ! el) ''data-intro-from'') ''up'')) st)"
  by (simp add: intro_body_def Let_def setTimeout_def)

lemma intro_forEach_keeps:
  "initial_state ''data-intro-from'' (doc st ! el) \<Longrightarrow> el < length (doc st) \<Longrightarrow>
   initial_state ''data-intro-from'' (doc (intro_forEach N els i st) ! el)"
  by (induction els arbitrary: i st) (simp_all add: doc_intro_body setInitialState_keeps)

lemma intro_forEach_establishes:
  "el \<in> set els \<Longrightarrow> el < length (doc st) \<Longrightarrow>
   initial_state ''data-intro-from'' (doc (intro_forEach N els i st) ! el)"
proof (induction els arbitrary: i st)
  case Nil
  then show ?case by simp
next
  case (Cons x xs)
  show ?case
  proof (cases "x = el")
    case True
    with Cons.prems show ?thesis
      by (simp add: intro_forEach_keeps doc_intro_body setInitialState_establishes)
  next
    case False
    with Cons show ?thesis by simp
  qed
qed

lemma runIntro_initial:
  assumes "el \<in> set (querySelectorAll [''data-intro''] (doc st))"
  shows "initial_state ''data-intro-from'' (doc (runIntro N False st) ! el)"
proof -
  from assms have "el < length (doc st)" by (simp add: set_querySelectorAll)
  with assms show ?thesis
    by (auto simp: runIntro_def Let_def intro_forEach_establishes)
qed

lemma translateFrom_up: "translateFrom (Some ''up'') 10 = ''translateY(10px)''"
  by (simp add: translateFrom_cases toLowerCase_def lower_char_def)

lemma initial_state_default:
  "initial_state a e \<Longrightarrow> getAttribute e a = None \<Longrightarrow> transform (style e) = ''translateY(10px)''"
  by (simp add: initial_state_def or_else_def translateFrom_up)

text \<open>
  C3. The intersection threshold depends on the number of reveal elements only: 0.05
  above 40, 0.10 above 20 and up to 40, 0.15 otherwise; so 45 elements give 0.05, 25 give
  0.10 and 10 give 0.15. It is the threshold \<^verbatim>\<open>setupReveals\<close> gives the observer.
\<close>

theorem getDynamicThreshold_by_length:
  "(length nodes = length nodes' \<longrightarrow> getDynamicThreshold nodes = getDynamicThreshold nodes')
   \<and> (40 < length nodes \<longrightarrow> getDynamicThreshold nodes = 0.05)
   \<and> (20 < length nodes \<and> length nodes \<le> 40 \<longrightarrow> getDynamicThreshold nodes = 0.1)
   \<and> (length nodes \<le> 20 \<longrightarrow> getDynamicThreshold nodes = 0.15)
   \<and> (length nodes = 45 \<longrightarrow> getDynamicThreshold nodes = 0.05)
   \<and> (length nodes = 25 \<longrightarrow> getDynamicThreshold nodes = 0.1)
   \<and> (length nodes = 10 \<longrightarrow> getDynamicThreshold nodes = 0.15)
   \<and> (querySelectorAll [''data-reveal''] (doc st) \<noteq> [] \<longrightarrow>
        observer (setupReveals N False st) =
          Some \<lparr>rootMargin = ''0px 0px -10% 0px'',
                threshold = getDynamicThreshold (querySelectorAll [''data-reveal''] (doc st))\<rparr>)"
  by (simp add: getDynamicThreshold_def Let_def setupReveals_observer)

theorem getDynamicThreshold_by_length_witness:
  "length [0..<45] = length (replicate 45 (7::nat))
   \<and> getDynamicThreshold [0..<45] = getDynamicThreshold (replicate 45 7)
   \<and> getDynamicThreshold [0..<45] = 0.05
   \<and> getDynamicThreshold [0..<25] = 0.1
   \<and> getDynamicThreshold [0..<10] = 0.15
   \<and> querySelectorAll [''data-reveal''] (doc (fresh usage_page)) \<noteq> []
   \<and> observer (setupReveals decimal False (fresh usage_page)) =
       Some \<lparr>rootMargin = ''0px 0px -10% 0px'', threshold = 0.15\<rparr>"
proof -
  have sel: "querySelectorAll [''data-reveal''] (doc (fresh usage_page)) = [3]"
    by (simp add: querySelectorAll_def flagged_def getAttribute_def usage_page_def fresh_def)
  have small: "getDynamicThreshold [3] = 0.15"
    using getDynamicThreshold_by_length [of "[3]" "[]" "fresh usage_page" decimal] by simp
  show ?thesis
    using getDynamicThreshold_by_length [of "[0..<45]" "replicate 45 7" "fresh usage_page" decimal]
      getDynamicThreshold_by_length [of "[0..<25]" "[]" "fresh usage_page" decimal]
      getDynamicThreshold_by_length [of "[0..<10]" "[]" "fresh usage_page" decimal]
    by (simp add: sel small)
qed

text \<open>
  C4. The direction mapping is total and ignores case: \<^verbatim>\<open>up\<close>, \<^verbatim>\<open>down\<close>, \<^verbatim>\<open>left\<close> and
  \<^verbatim>\<open>right\<close> give a 10 pixel translation along their axis and sign, \<^verbatim>\<open>fade\<close> the neutral
  transform, and every other or absent value what \<^verbatim>\<open>up\<close> gives. An element without a
  direction attribute starts, in both subsystems, from the 10 pixel \<^verbatim>\<open>up\<close> offset.
\<close>

theorem translateFrom_total_case_insensitive:
  "(toLowerCase s = toLowerCase t \<longrightarrow> translateFrom (Some s) px = translateFrom (Some t) px)
   \<and> (toLowerCase s = ''up'' \<longrightarrow> translateFrom (Some s) 10 = ''translateY(10px)'')
   \<and> (toLowerCase s = ''down'' \<longrightarrow> translateFrom (Some s) 10 = ''translateY(-10px)'')
   \<and> (toLowerCase s = ''left'' \<longrightarrow> translateFrom (Some s) 10 = ''translateX(10px)'')
   \<and> (toLowerCase s = ''right'' \<longrightarrow> translateFrom (Some s) 10 = ''translateX(-10px)'')
   \<and> (toLowerCase s = ''fade'' \<longrightarrow> translateFrom (Some s) 10 = ''translateZ(0)'')
   \<and> (toLowerCase s \<notin> {''down'', ''left'', ''right'', ''fade''} \<longrightarrow>
        translateFrom (Some s) px = translateFrom (Some ''up'') px)
   \<and> translateFrom None px = translateFrom (Some ''up'') px
   \<and> (el < length (doc st) \<longrightarrow>
        transform (style (doc (setInitialState el None st) ! el)) = ''translateY(10px)'')
   \<and> (el \<in> set (querySelectorAll [''data-intro''] (doc st))
        \<and> getAttribute (doc st ! el) ''data-intro-from'' = None \<longrightarrow>
        transform (style (doc (runIntro N False st) ! el)) = ''translateY(10px)'')
   \<and> (el \<in> set (querySelectorAll [''data-reveal''] (doc st))
        \<and> getAttribute (doc st ! el) ''data-reveal-from'' = None \<longrightarrow>
        transform (style (doc (setupReveals N False st) ! el)) = ''translateY(10px)'')"
proof -
  have intro: "transform (style (doc (runIntro N False st) ! el)) = ''translateY(10px)''"
    if "el \<in> set (querySelectorAll [''data-intro''] (doc st))"
      "getAttribute (doc st ! el) ''data-intro-from'' = None"
    using that by (intro initial_state_default [OF runIntro_initial]) simp_all
  have reveal: "transform (style (doc (setupReveals N False st) ! el)) = ''translateY(10px)''"
    if "el \<in> set (querySelectorAll [''data-reveal''] (doc st))"
      "getAttribute (doc st ! el) ''data-reveal-from'' = None"
    using that by (intro initial_state_default [OF setupReveals_initial]) simp_all
  have fb: "toLowerCase s \<notin> {''down'', ''left'', ''right'', ''fade''} \<longrightarrow>
        translateFrom (Some s) px = translateFrom (Some ''up'') px"
    using translateFrom_fallback [of s px] by blast
  have ci: "toLowerCase s = toLowerCase t \<longrightarrow> translateFrom (Some s) px = translateFrom (Some t) px"
    using translateFrom_ci [of s t px] by blast
  have vals: "(toLowerCase s = ''up'' \<longrightarrow> translateFrom (Some s) 10 = ''translateY(10px)'')
   \<and> (toLowerCase s = ''down'' \<longrightarrow> translateFrom (Some s) 10 = ''translateY(-10px)'')
   \<and> (toLowerCase s = ''left'' \<longrightarrow> translateFrom (Some s) 10 = ''translateX(10px)'')
   \<and> (toLowerCase s = ''right'' \<longrightarrow> translateFrom (Some s) 10 = ''translateX(-10px)'')
   \<and> (toLowerCase s = ''fade'' \<longrightarrow> translateFrom (Some s) 10 = ''translateZ(0)'')"
    by (simp add: translateFrom_cases)
  have dflt: "el < length (doc st) \<longrightarrow>
        transform (style (doc (setInitialState el None st) ! el)) = ''translateY(10px)''"
    by (simp add: setInitialState_def style_update_style_same translateFrom_up)
  show ?thesis
    using intro reveal fb ci vals dflt translateFrom_absent(1) [of px] by blast
qed

theorem translateFrom_total_case_insensitive_witness:
  "toLowerCase ''UP'' = toLowerCase ''up''
   \<and> translateFrom (Some ''UP'') 10 = translateFrom (Some ''up'') 10
   \<and> toLowerCase ''LeFt'' = ''left'' \<and> translateFrom (Some ''LeFt'') 10 = ''translateX(10px)''
   \<and> toLowerCase ''sideways'' \<notin> {''down'', ''left'', ''right'', ''fade''}
   \<and> translateFrom (Some ''sideways'') 10 = ''translateY(10px)''
   \<and> 0 < length (doc (fresh usage_page))
   \<and> transform (style (doc (setInitialState 0 None (fresh usage_page)) ! 0)) = ''translateY(10px)''
   \<and> 0 \<in> set (querySelectorAll [''data-intro''] (doc (fresh usage_page)))
   \<and> getAttribute (doc (fresh usage_page) ! 0) ''data-intro-from'' = None
   \<and> transform (style (doc (runIntro decimal False (fresh usage_page)) ! 0)) = ''translateY(10px)''"
proof -
  have a: "toLowerCase ''UP'' = toLowerCase ''up''" "toLowerCase ''LeFt'' = ''left''"
    "toLowerCase ''sideways'' \<notin> {''down'', ''left'', ''right'', ''fade''}"
    "toLowerCase ''up'' = ''up''"
    by (simp_all add: toLowerCase_def lower_char_def)
  have b: "0 \<in> set (querySelectorAll [''data-intro''] (doc (fresh usage_page)))"
    "getAttribute (doc (fresh usage_page) ! 0) ''data-intro-from'' = None"
    "0 < length (doc (fresh usage_page))"
    by (simp_all add: querySelectorAll_def flagged_def getAttribute_def usage_page_def fresh_def)
  show ?thesis
    using translateFrom_total_case_insensitive [of "''UP''" "''up''" 10 0 "fresh usage_page" decimal]
      translateFrom_total_case_insensitive [of "''LeFt''" "''up''" 10 0 "fresh usage_page" decimal]
      translateFrom_total_case_insensitive [of "''sideways''" "''up''" 10 0 "fresh usage_page" decimal]
      translateFrom_total_case_insensitive [of "''up''" "''up''" 10 0 "fresh usage_page" decimal]
      a b
    by simp
qed

lemma unobserve_fields [simp]:
  "timers (unobserve el st) = timers st"
  "frames (unobserve el st) = frames st"
  "doc (unobserve el st) = doc st"
  "observer (unobserve el st) = observer st"
  "set (observed (unobserve el st)) = set (observed st) - {el}"
  by (auto simp: unobserve_def)

lemma reveal_entry_intersecting:
  "reveal_entry N (el, True) st =
     (let st1 = clearTransition el (animateIn el
                  (Some (number_or_zero N (getAttribute (doc st ! el) ''data-reveal-delay'')))
                  (Some 800) None st)
      in if reveal_once (doc st ! el) then unobserve el st1 else st1)"
  by (simp add: reveal_entry_def Let_def)

lemma schedule_fields [simp]:
  "doc (clearTransition el st) = doc st"
  "observed (clearTransition el st) = observed st"
  "observer (clearTransition el st) = observer st"
  "frames (clearTransition el st) = frames st"
  "timers (clearTransition el st) = timers st @ [(1100, ClearStyles el)]"
  "doc (animateIn el dl du ea st) = doc st"
  "observed (animateIn el dl du ea st) = observed st"
  "observer (animateIn el dl du ea st) = observer st"
  "timers (animateIn el dl du ea st) = timers st"
  by (simp_all add: clearTransition_def animateIn_def setTimeout_def requestAnimationFrame_def)

lemma animateIn_frames:
  "frames (animateIn el (Some dl) (Some du) None st) =
     frames st @ [AnimateFrame el dl du default_easing]"
  by (simp add: animateIn_def requestAnimationFrame_def)

text \<open>
  C9. The once flag is true exactly when \<^verbatim>\<open>data-reveal-once\<close> is absent or is the string
  \<^verbatim>\<open>true\<close>, and the callback stops observing an intersecting element exactly then. Any
  other value, \<^verbatim>\<open>True\<close>, \<^verbatim>\<open>TRUE\<close>, \<^verbatim>\<open>1\<close> or the empty string among them, gives false,
  although the direction parsing would take strings that differ in case only as equal.
\<close>

theorem reveal_once_exact:
  "(reveal_once e \<longleftrightarrow>
      getAttribute e ''data-reveal-once'' = None \<or> getAttribute e ''data-reveal-once'' = Some ''true'')
   \<and> (el \<in> set (observed st) \<longrightarrow>
        (el \<notin> set (observed (reveal_entry N (el, True) st)) \<longleftrightarrow>
           getAttribute (doc st ! el) ''data-reveal-once'' = None
           \<or> getAttribute (doc st ! el) ''data-reveal-once'' = Some ''true''))
   \<and> (\<forall>s \<in> {''True'', ''TRUE'', ''1'', ''''}.
         getAttribute e ''data-reveal-once'' = Some s \<longrightarrow> \<not> reveal_once e)
   \<and> toLowerCase ''TRUE'' = toLowerCase ''true''
   \<and> translateFrom (Some ''FADE'') 10 = translateFrom (Some ''fade'') 10"
proof -
  have once: "reveal_once e \<longleftrightarrow>
      getAttribute e ''data-reveal-once'' = None \<or> getAttribute e ''data-reveal-once'' = Some ''true''"
    for e
    by (simp add: reveal_once_def split: option.split)
  have obs: "el \<in> set (observed st) \<longrightarrow>
        (el \<notin> set (observed (reveal_entry N (el, True) st)) \<longleftrightarrow> reveal_once (doc st ! el))"
    by (simp add: reveal_entry_intersecting Let_def)
  have others: "\<forall>s \<in> {''True'', ''TRUE'', ''1'', ''''}.
         getAttribute e ''data-reveal-once'' = Some s \<longrightarrow> \<not> reveal_once e"
    by (simp add: reveal_once_def)
  have lower: "toLowerCase ''TRUE'' = toLowerCase ''true''"
    by (simp add: toLowerCase_def lower_char_def)
  have fade: "translateFrom (Some ''FADE'') 10 = translateFrom (Some ''fade'') 10"
    by (rule translateFrom_ci) (simp add: toLowerCase_def lower_char_def)
  show ?thesis
    using once [of e] once [of "doc st ! el"] obs others lower fade by blast
qed

theorem reveal_once_exact_witness:
  "0 \<in> set (observed ((fresh repeat_page)\<lparr>observed := [0]\<rparr>))
   \<and> getAttribute (repeat_page ! 0) ''data-reveal-once'' = Some ''True''
   \<and> ''True'' \<in> {''True'', ''TRUE'', ''1'', ''''}
   \<and> \<not> reveal_once (repeat_page ! 0)
   \<and> 0 \<in> set (observed (reveal_entry decimal (0, True) ((fresh repeat_page)\<lparr>observed := [0]\<rparr>)))"
proof -
  have a: "getAttribute (repeat_page ! 0) ''data-reveal-once'' = Some ''True''"
    by (simp add: repeat_page_def getAttribute_def)
  show ?thesis
    using reveal_once_exact [of "repeat_page ! 0" 0 "(fresh repeat_page)\<lparr>observed := [0]\<rparr>" decimal] a
    by (simp add: fresh_def)
qed

subsection \<open>Pages on which nothing is pending\<close>

lemma run_Nil [simp]: "run sc [] st = st"
  by (simp add: run_def)

lemma run_Cons [simp]: "run sc (e # evs) st = run sc evs (step sc e st)"
  by (simp add: run_def)

lemma run_append: "run sc (evs @ evs') st = run sc evs' (run sc evs st)"
  by (simp add: run_def)

lemma flagged_cong:
  "(\<And>n. getAttribute e n = getAttribute e' n) \<Longrightarrow> flagged names e = flagged names e'"
  by (simp add: flagged_def)

lemma querySelectorAll_cong:
  assumes "length d = length d'" "\<And>i n. getAttribute (d ! i) n = getAttribute (d' ! i) n"
  shows "querySelectorAll names d = querySelectorAll names d'"
proof -
  have "flagged names (d ! i) = flagged names (d' ! i)" for i
    by (rule flagged_cong) (rule assms(2))
  then show ?thesis
    using assms(1) by (simp add: querySelectorAll_def)
qed

lemma flagged_either:
  "flagged [''data-intro'', ''data-reveal''] e \<longleftrightarrow>
     flagged [''data-intro''] e \<or> flagged [''data-reveal''] e"
  by (auto simp: flagged_def)

lemma drop_nth_single [simp]: "drop_nth 0 [x] = []"
  by (simp add: drop_nth_def)

lemma fresh_fields [simp]:
  "doc (fresh d) = d" "timers (fresh d) = []" "frames (fresh d) = []"
  "observed (fresh d) = []" "observer (fresh d) = None"
  by (simp_all add: fresh_def)

lemma init_frame:
  "step sc (FrameFires 0) (step sc DOMContentLoaded (fresh d)) =
     setupReveals (toNumber sc) (prefersReduced sc)
       (runIntro (toNumber sc) (prefersReduced sc) (fresh d))"
  by (simp add: requestAnimationFrame_def fresh_def)

lemma quiet_init:
  assumes "prefersReduced sc"
  shows "quiet d (step sc (FrameFires 0) (step sc DOMContentLoaded (fresh d)))"
proof -
  let ?I = "querySelectorAll [''data-intro''] d"
  let ?R = "querySelectorAll [''data-reveal''] d"
  let ?st1 = "showImmediately ?I (fresh d)"
  have sel: "querySelectorAll [''data-reveal''] (doc ?st1) = ?R"
    by (rule querySelectorAll_cong) simp_all
  have eq: "step sc (FrameFires 0) (step sc DOMContentLoaded (fresh d)) = showImmediately ?R ?st1"
    unfolding init_frame using assms by (simp add: runIntro_reduced setupReveals_reduced sel)
  have "end_state (style (doc (showImmediately ?R ?st1) ! el))"
    if el: "el < length d" and fl: "flagged [''data-intro'', ''data-reveal''] (d ! el)" for el
  proof (cases "flagged [''data-reveal''] (d ! el)")
    case True
    with el have "el \<in> set ?R" by (simp add: set_querySelectorAll)
    with el show ?thesis by (simp add: showImmediately_reveals)
  next
    case False
    with fl have "flagged [''data-intro''] (d ! el)" by (simp add: flagged_either)
    with el have "el \<in> set ?I" by (simp add: set_querySelectorAll)
    with el have "end_state (style (doc ?st1 ! el))" by (simp add: showImmediately_reveals)
    then show ?thesis by (rule showImmediately_keeps)
  qed
  then show ?thesis
    unfolding eq by (simp add: quiet_def)
qed

lemma quiet_step:
  assumes "quiet d st" "e \<noteq> DOMContentLoaded"
  shows "quiet d (step sc e st)"
proof (cases e)
  case ReducedMotionChange
  with assms(1) show ?thesis
    by (simp add: quiet_def on_change_def showImmediately_keeps)
qed (use assms in \<open>simp_all add: quiet_def\<close>)

lemma quiet_run:
  "quiet d st \<Longrightarrow> DOMContentLoaded \<notin> set evs \<Longrightarrow> quiet d (run sc evs st)"
  by (induction evs arbitrary: st) (auto simp: quiet_step)

lemma end_stateD:
  "end_state s \<Longrightarrow> opacity s = ''1'' \<and> transform s = ''none'' \<and> transition s = NoTransition"
  by (simp add: end_state_def)

lemma reduced_subsystem:
  assumes "el \<in> set (querySelectorAll names (doc st))"
  shows "end_state (style (doc (showImmediately (querySelectorAll names (doc st)) st) ! el))"
proof -
  from assms have "el < length (doc st)" by (simp add: set_querySelectorAll)
  with assms show ?thesis by (simp add: showImmediately_reveals)
qed

text \<open>
  C5. With the reduced-motion preference active when the script is evaluated, every
  intro-flagged and every reveal-flagged element is, from initialization on and whatever
  happens next, in the end state (opacity 1, transform none) with an empty transition,
  and neither subsystem does anything more: no timer, no frame callback, no observer
  and no observed element, so nothing hides an element or staggers it.
\<close>

theorem reduced_motion_reveals_at_once:
  assumes "prefersReduced sc" "DOMContentLoaded \<notin> set evs"
  shows "(let st = run sc (DOMContentLoaded # FrameFires 0 # evs) (fresh d) in
           (\<forall>el < length d. flagged [''data-intro'', ''data-reveal''] (d ! el) \<longrightarrow>
              opacity (style (doc st ! el)) = ''1'' \<and> transform (style (doc st ! el)) = ''none''
              \<and> transition (style (doc st ! el)) = NoTransition)
           \<and> timers st = [] \<and> frames st = [] \<and> observed st = [] \<and> observer st = None)
       \<and> (let st1 = runIntro (toNumber sc) (prefersReduced sc) st0 in
           (\<forall>el \<in> set (querySelectorAll [''data-intro''] (doc st0)).
              opacity (style (doc st1 ! el)) = ''1'' \<and> transform (style (doc st1 ! el)) = ''none''
              \<and> transition (style (doc st1 ! el)) = NoTransition)
           \<and> timers st1 = timers st0 \<and> frames st1 = frames st0
           \<and> observed st1 = observed st0 \<and> observer st1 = observer st0)
       \<and> (let st1 = setupReveals (toNumber sc) (prefersReduced sc) st0 in
           (\<forall>el \<in> set (querySelectorAll [''data-reveal''] (doc st0)).
              opacity (style (doc st1 ! el)) = ''1'' \<and> transform (style (doc st1 ! el)) = ''none''
              \<and> transition (style (doc st1 ! el)) = NoTransition)
           \<and> timers st1 = timers st0 \<and> frames st1 = frames st0
           \<and> observed st1 = observed st0 \<and> observer st1 = observer st0)"
proof -
  define st where "st = run sc (DOMContentLoaded # FrameFires 0 # evs) (fresh d)"
  define st1 where "st1 = runIntro (toNumber sc) (prefersReduced sc) st0"
  define st2 where "st2 = setupReveals (toNumber sc) (prefersReduced sc) st0"
  have "quiet d (run sc evs (step sc (FrameFires 0) (step sc DOMContentLoaded (fresh d))))"
    using assms by (intro quiet_run quiet_init)
  then have whole: "quiet d st"
    unfolding st_def by (simp only: run_Cons)
  have a: "(\<forall>el < length d. flagged [''data-intro'', ''data-reveal''] (d ! el) \<longrightarrow>
              opacity (style (doc st ! el)) = ''1'' \<and> transform (style (doc st ! el)) = ''none''
              \<and> transition (style (doc st ! el)) = NoTransition)
           \<and> timers st = [] \<and> frames st = [] \<and> observed st = [] \<and> observer st = None"
    using whole unfolding quiet_def by (auto dest: end_stateD)
  have st1: "st1 = showImmediately (querySelectorAll [''data-intro''] (doc st0)) st0"
    using assms(1) by (simp add: st1_def runIntro_reduced)
  have b: "(\<forall>el \<in> set (querySelectorAll [''data-intro''] (doc st0)).
              opacity (style (doc st1 ! el)) = ''1'' \<and> transform (style (doc st1 ! el)) = ''none''
              \<and> transition (style (doc st1 ! el)) = NoTransition)
           \<and> timers st1 = timers st0 \<and> frames st1 = frames st0
           \<and> observed st1 = observed st0 \<and> observer st1 = observer st0"
    using reduced_subsystem [of _ "[''data-intro'']" st0]
    by (auto simp: st1 dest: end_stateD)
  have st2: "st2 = showImmediately (querySelectorAll [''data-reveal''] (doc st0)) st0"
    using assms(1) by (simp add: st2_def setupReveals_reduced)
  have c: "(\<forall>el \<in> set (querySelectorAll [''data-reveal''] (doc st0)).
              opacity (style (doc st2 ! el)) = ''1'' \<and> transform (style (doc st2 ! el)) = ''none''
              \<and> transition (style (doc st2 ! el)) = NoTransition)
           \<and> timers st2 = timers st0 \<and> frames st2 = frames st0
           \<and> observed st2 = observed st0 \<and> observer st2 = observer st0"
    using reduced_subsystem [of _ "[''data-reveal'']" st0]
    by (auto simp: st2 dest: end_stateD)
  show ?thesis
    unfolding Let_def st_def [symmetric] st1_def [symmetric] st2_def [symmetric]
    by (rule conjI [OF a conjI [OF b c]])
qed

theorem reduced_motion_reveals_at_once_witness:
  "prefersReduced reduced_script
   \<and> DOMContentLoaded \<notin> set [Intersection [(3, True)], TimerFires 0, ReducedMotionChange]
   \<and> 3 < length usage_page \<and> flagged [''data-intro'', ''data-reveal''] (usage_page ! 3)
   \<and> (let st = run reduced_script
                  [DOMContentLoaded, FrameFires 0, Intersection [(3, True)], TimerFires 0,
                   ReducedMotionChange] (fresh usage_page)
      in opacity (style (doc st ! 3)) = ''1'' \<and> transform (style (doc st ! 3)) = ''none''
         \<and> transition (style (doc st ! 3)) = NoTransition
         \<and> timers st = [] \<and> frames st = [] \<and> observed st = [] \<and> observer st = None)
   \<and> 0 \<in> set (querySelectorAll [''data-intro''] (doc (fresh usage_page)))
   \<and> opacity (style (doc (runIntro decimal True (fresh usage_page)) ! 0)) = ''1''
   \<and> 3 \<in> set (querySelectorAll [''data-reveal''] (doc (fresh usage_page)))
   \<and> transition (style (doc (setupReveals decimal True (fresh usage_page)) ! 3)) = NoTransition
   \<and> observed (setupReveals decimal True (fresh usage_page)) = []"
proof -
  have h1: "prefersReduced reduced_script"
    by (simp add: reduced_script_def)
  have h2: "DOMContentLoaded \<notin> set [Intersection [(3, True)], TimerFires 0, ReducedMotionChange]"
    by simp
  have h3: "3 < length usage_page" "flagged [''data-intro'', ''data-reveal''] (usage_page ! 3)"
    by (simp_all add: usage_page_def flagged_def getAttribute_def)
  have h4: "0 \<in> set (querySelectorAll [''data-intro''] (doc (fresh usage_page)))"
    "3 \<in> set (querySelectorAll [''data-reveal''] (doc (fresh usage_page)))"
    by (simp_all add: querySelectorAll_def flagged_def getAttribute_def usage_page_def)
  have sc: "toNumber reduced_script = decimal" "prefersReduced reduced_script = True"
    by (simp_all add: reduced_script_def)
  from reduced_motion_reveals_at_once [OF h1 h2, of usage_page "fresh usage_page"] h1 h2 h3 h4
  show ?thesis
    unfolding Let_def sc fresh_fields by blast
qed

subsection \<open>The callback of the observer\<close>

lemma reveal_entry_skip [simp]: "reveal_entry N (el, False) st = st"
  by (simp add: reveal_entry_def)

lemma reveal_entry_doc [simp]: "doc (reveal_entry N e st) = doc st"
  by (cases e; cases "snd e") (simp_all add: reveal_entry_intersecting Let_def)

lemma reveal_entry_observer [simp]: "observer (reveal_entry N e st) = observer st"
  by (cases e; cases "snd e") (simp_all add: reveal_entry_intersecting Let_def)

lemma reveal_entry_observed: "set (observed (reveal_entry N e st)) \<subseteq> set (observed st)"
  by (cases e; cases "snd e") (auto simp: reveal_entry_intersecting Let_def)

lemma reveal_entry_timers:
  "timers (reveal_entry N e st) =
     timers st @ (if snd e then [(1100, ClearStyles (fst e))] else [])"
  by (cases e; cases "snd e") (simp_all add: reveal_entry_intersecting Let_def)

lemma reveal_entry_frames:
  "frames (reveal_entry N e st) =
     frames st @ (if snd e
        then [AnimateFrame (fst e)
                (number_or_zero N (getAttribute (doc st ! fst e) ''data-reveal-delay''))
                800 default_easing]
        else [])"
  by (cases e; cases "snd e") (simp_all add: reveal_entry_intersecting Let_def animateIn_frames)

lemma reveal_entry_observed_other:
  "fst e \<noteq> el \<or> \<not> snd e \<Longrightarrow>
   el \<in> set (observed (reveal_entry N e st)) \<longleftrightarrow> el \<in> set (observed st)"
  by (cases e; cases "snd e") (auto simp: reveal_entry_intersecting Let_def)

lemma callback_Nil [simp]: "observer_callback N [] st = st"
  by (simp add: observer_callback_def)

lemma callback_Cons [simp]:
  "observer_callback N (e # es) st = observer_callback N es (reveal_entry N e st)"
  by (simp add: observer_callback_def)

lemma callback_doc [simp]: "doc (observer_callback N es st) = doc st"
  by (induction es arbitrary: st) simp_all

lemma callback_observer [simp]: "observer (observer_callback N es st) = observer st"
  by (induction es arbitrary: st) simp_all

lemma callback_observed: "set (observed (observer_callback N es st)) \<subseteq> set (observed st)"
proof (induction es arbitrary: st)
  case Nil
  show ?case by simp
next
  case (Cons e es)
  show ?case
    using Cons.IH [of "reveal_entry N e st"] reveal_entry_observed [of N e st] by auto
qed

lemma callback_timers:
  "timers (observer_callback N es st) =
     timers st @ map (\<lambda>e. (1100, ClearStyles (fst e))) (filter snd es)"
  by (induction es arbitrary: st) (simp_all add: reveal_entry_timers)

lemma callback_frames:
  "frames (observer_callback N es st) =
     frames st @ map (\<lambda>e. AnimateFrame (fst e)
                       (number_or_zero N (getAttribute (doc st ! fst e) ''data-reveal-delay''))
                       800 default_easing) (filter snd es)"
  by (induction es arbitrary: st) (simp_all add: reveal_entry_frames)

lemma callback_unobserves:
  "(el, True) \<in> set es \<Longrightarrow> reveal_once (doc st ! el) \<Longrightarrow>
   el \<notin> set (observed (observer_callback N es st))"
proof (induction es arbitrary: st)
  case Nil
  then show ?case by simp
next
  case (Cons e es)
  show ?case
  proof (cases "e = (el, True)")
    case True
    with Cons.prems(2) have "el \<notin> set (observed (reveal_entry N e st))"
      by (simp add: reveal_entry_intersecting Let_def)
    then show ?thesis
      using callback_observed [of N es "reveal_entry N e st"] by auto
  next
    case False
    with Cons.prems have "(el, True) \<in> set es" "reveal_once (doc (reveal_entry N e st) ! el)"
      by simp_all
    then show ?thesis
      using Cons.IH by simp
  qed
qed

lemma callback_skips:
  assumes "\<forall>e \<in> set es. fst e = el \<longrightarrow> \<not> snd e"
  shows "filter (\<lambda>t. task_target (snd t) = Some el) (timers (observer_callback N es st)) =
           filter (\<lambda>t. task_target (snd t) = Some el) (timers st)"
    and "filter (\<lambda>t. task_target t = Some el) (frames (observer_callback N es st)) =
           filter (\<lambda>t. task_target t = Some el) (frames st)"
    and "el \<in> set (observed (observer_callback N es st)) \<longleftrightarrow> el \<in> set (observed st)"
proof -
  have none: "filter (\<lambda>e. fst e = el) (filter snd es) = []"
    using assms by (auto simp: filter_empty_conv)
  show "filter (\<lambda>t. task_target (snd t) = Some el) (timers (observer_callback N es st)) =
           filter (\<lambda>t. task_target (snd t) = Some el) (timers st)"
    using none by (simp add: callback_timers filter_map comp_def)
  show "filter (\<lambda>t. task_target t = Some el) (frames (observer_callback N es st)) =
           filter (\<lambda>t. task_target t = Some el) (frames st)"
    using none by (simp add: callback_frames filter_map comp_def)
  show "el \<in> set (observed (observer_callback N es st)) \<longleftrightarrow> el \<in> set (observed st)"
    using assms
  proof (induction es arbitrary: st)
    case Nil
    show ?case by simp
  next
    case (Cons e es)
    then show ?case
      by (simp add: reveal_entry_observed_other)
  qed
qed

text \<open>
  C10. An entry that is not intersecting makes the callback do nothing: the body of the
  loop returns the page as it is. So when a notification has no intersecting entry for
  an element, the callback writes no style at all, schedules neither a frame callback
  nor a cleanup for that element, and keeps it observed if it was.
\<close>

theorem not_intersecting_untouched:
  assumes "\<forall>e \<in> set entries. fst e = el \<longrightarrow> \<not> snd e"
  shows "reveal_entry N (el, False) st = st
       \<and> (let st' = observer_callback N entries st in
           doc st' = doc st
           \<and> filter (\<lambda>t. task_target (snd t) = Some el) (timers st') =
               filter (\<lambda>t. task_target (snd t) = Some el) (timers st)
           \<and> filter (\<lambda>t. task_target t = Some el) (frames st') =
               filter (\<lambda>t. task_target t = Some el) (frames st)
           \<and> (el \<in> set (observed st') \<longleftrightarrow> el \<in> set (observed st)))"
  using callback_skips [OF assms, of N st] by (simp add: Let_def)

theorem not_intersecting_untouched_witness:
  "fst (3::nat, False) = 3 \<and> \<not> snd (3::nat, False) \<and> fst (0::nat, True) \<noteq> 3
   \<and> (let st = (fresh usage_page)\<lparr>observed := [3]\<rparr>;
          st' = observer_callback decimal [(3, False), (0, True)] st
      in doc st' = doc st
         \<and> filter (\<lambda>t. task_target (snd t) = Some 3) (timers st') = []
         \<and> filter (\<lambda>t. task_target t = Some 3) (frames st') = []
         \<and> 3 \<in> set (observed st'))"
proof -
  have h: "\<forall>e \<in> set [(3::nat, False), (0, True)]. fst e = 3 \<longrightarrow> \<not> snd e"
    by simp
  show ?thesis
    using not_intersecting_untouched [OF h, of decimal "(fresh usage_page)\<lparr>observed := [3]\<rparr>"]
    by (simp add: Let_def)
qed

lemma set_drop_nth: "set (drop_nth k xs) \<subseteq> set xs"
  by (auto simp: drop_nth_def dest: in_set_takeD in_set_dropD)

lemma settled_run_task:
  assumes "settled st" "t \<noteq> InitFrame"
  shows "settled (run_task sc t st) \<and> set (observed (run_task sc t st)) \<subseteq> set (observed st)"
  using assms
  by (cases t)
     (auto simp: settled_def clearTransition_def animateIn_def setTimeout_def
        requestAnimationFrame_def)

lemma settled_drop_timers:
  "settled st \<Longrightarrow> settled (st\<lparr>timers := drop_nth k (timers st)\<rparr>)"
  using set_drop_nth [of k "timers st"] by (auto simp: settled_def)

lemma settled_drop_frames:
  "settled st \<Longrightarrow> settled (st\<lparr>frames := drop_nth k (frames st)\<rparr>)"
  using set_drop_nth [of k "frames st"] by (auto simp: settled_def)

lemma settled_callback:
  assumes "settled st"
  shows "settled (observer_callback N es st)"
proof -
  have "observed (observer_callback N es st) = []" if "observed st = []"
    using callback_observed [of N es st] that by simp
  then show ?thesis
    using assms by (auto simp: settled_def callback_timers callback_frames)
qed

lemma settled_step:
  assumes "settled st" "e \<noteq> DOMContentLoaded"
  shows "settled (step sc e st) \<and> set (observed (step sc e st)) \<subseteq> set (observed st)"
proof (cases e)
  case DOMContentLoaded
  with assms(2) show ?thesis by simp
next
  case (TimerFires k)
  show ?thesis
  proof (cases "k < length (timers st)")
    case True
    then have "snd (timers st ! k) \<in> snd ` set (timers st)" by simp
    with assms(1) have "snd (timers st ! k) \<noteq> InitFrame"
      unfolding settled_def by metis
    from settled_run_task [OF settled_drop_timers [OF assms(1)] this, of sc k] True TimerFires
    show ?thesis by simp
  next
    case False
    with assms(1) TimerFires show ?thesis by simp
  qed
next
  case (FrameFires k)
  show ?thesis
  proof (cases "k < length (frames st)")
    case True
    then have "frames st ! k \<in> set (frames st)" by simp
    with assms(1) have "frames st ! k \<noteq> InitFrame" by (auto simp: settled_def)
    from settled_run_task [OF settled_drop_frames [OF assms(1)] this, of sc k] True FrameFires
    show ?thesis by simp
  next
    case False
    with assms(1) FrameFires show ?thesis by simp
  qed
next
  case (Intersection entries)
  with assms(1) show ?thesis
    using callback_observed [of "toNumber sc" _ st]
    by (auto simp: settled_callback split: option.split)
next
  case ReducedMotionChange
  with assms(1) show ?thesis
    by (simp add: on_change_def settled_def)
qed

lemma settled_run:
  "settled st \<Longrightarrow> DOMContentLoaded \<notin> set evs \<Longrightarrow>
   settled (run sc evs st) \<and> set (observed (run sc evs st)) \<subseteq> set (observed st)"
proof (induction evs arbitrary: st)
  case Nil
  then show ?case by simp
next
  case (Cons e evs)
  from Cons.prems have e: "e \<noteq> DOMContentLoaded" and evs: "DOMContentLoaded \<notin> set evs"
    by auto
  from settled_step [OF Cons.prems(1) e, of sc]
  have s: "settled (step sc e st)" and o: "set (observed (step sc e st)) \<subseteq> set (observed st)"
    by simp_all
  from Cons.IH [OF s evs] o show ?case by auto
qed

lemma settled_init: "settled (step sc (FrameFires 0) (step sc DOMContentLoaded (fresh d)))"
proof (cases "prefersReduced sc")
  case True
  then have "quiet d (step sc (FrameFires 0) (step sc DOMContentLoaded (fresh d)))"
    by (rule quiet_init)
  then show ?thesis by (simp only: quiet_def settled_def) simp
next
  case False
  let ?st1 = "runIntro (toNumber sc) False (fresh d)"
  have t: "InitFrame \<notin> snd ` set (timers ?st1)"
    by (auto simp: runIntro_timers)
  have o: "observer (setupReveals (toNumber sc) False ?st1) = None \<longrightarrow>
           observed (setupReveals (toNumber sc) False ?st1) = []"
    by (simp add: setupReveals_unfold Let_def)
  show ?thesis
    unfolding init_frame using False t o by (simp add: settled_def)
qed

lemma runIntro_getAttribute [simp]:
  "getAttribute (doc (runIntro N pr st) ! i) n = getAttribute (doc st ! i) n"
  by (cases pr) (simp_all add: runIntro_reduced)

lemma run_task_getAttribute [simp]:
  "getAttribute (doc (run_task sc t st) ! i) n = getAttribute (doc st ! i) n"
  by (cases t) simp_all

lemma step_getAttribute [simp]:
  "getAttribute (doc (step sc e st) ! i) n = getAttribute (doc st ! i) n"
  by (cases e) (simp_all add: requestAnimationFrame_def on_change_def split: option.split)

lemma run_getAttribute [simp]:
  "getAttribute (doc (run sc evs st) ! i) n = getAttribute (doc st ! i) n"
  by (induction evs arbitrary: st) simp_all

lemma reveal_once_cong:
  "(\<And>n. getAttribute e n = getAttribute e' n) \<Longrightarrow> reveal_once e = reveal_once e'"
  by (simp add: reveal_once_def)

lemma intersection_skips:
  assumes "el \<notin> set (observed st)"
  shows "doc (step sc (Intersection es) st) = doc st"
    and "filter (\<lambda>t. task_target (snd t) = Some el) (timers (step sc (Intersection es) st)) =
           filter (\<lambda>t. task_target (snd t) = Some el) (timers st)"
    and "filter (\<lambda>t. task_target t = Some el) (frames (step sc (Intersection es) st)) =
           filter (\<lambda>t. task_target t = Some el) (frames st)"
    and "el \<notin> set (observed (step sc (Intersection es) st))"
proof -
  let ?es = "filter (\<lambda>e. fst e \<in> set (observed st)) es"
  have h: "\<forall>e \<in> set ?es. fst e = el \<longrightarrow> \<not> snd e"
    using assms by auto
  show "doc (step sc (Intersection es) st) = doc st"
    by (simp split: option.split)
  show "filter (\<lambda>t. task_target (snd t) = Some el) (timers (step sc (Intersection es) st)) =
           filter (\<lambda>t. task_target (snd t) = Some el) (timers st)"
    using callback_skips(1) [OF h, of "toNumber sc" st] by (simp split: option.split)
  show "filter (\<lambda>t. task_target t = Some el) (frames (step sc (Intersection es) st)) =
           filter (\<lambda>t. task_target t = Some el) (frames st)"
    using callback_skips(2) [OF h, of "toNumber sc" st] by (simp split: option.split)
  show "el \<notin> set (observed (step sc (Intersection es) st))"
    using callback_skips(3) [OF h, of "toNumber sc" st] assms by (simp split: option.split)
qed

text \<open>
  C6. A reveal element whose once flag is true (the default when the attribute is absent)
  is no longer observed after the first notification in which it intersects; it stays
  unobserved whatever happens next, so no later intersection notification reaches the
  callback for it: such a notification writes no style and schedules neither a frame
  callback nor a cleanup for the element.
\<close>

theorem once_revealed_never_again:
  assumes "DOMContentLoaded \<notin> set evs0" "DOMContentLoaded \<notin> set evs"
      and "el \<in> set (observed (run sc (DOMContentLoaded # FrameFires 0 # evs0) (fresh d)))"
      and "reveal_once (d ! el)"
      and "(el, True) \<in> set entries"
  shows "let st = run sc (DOMContentLoaded # FrameFires 0 # evs0) (fresh d);
             st1 = step sc (Intersection entries) st;
             st2 = run sc evs st1;
             st3 = step sc (Intersection entries') st2
         in el \<notin> set (observed st1) \<and> el \<notin> set (observed st2) \<and> el \<notin> set (observed st3)
          \<and> doc st3 = doc st2
          \<and> filter (\<lambda>t. task_target (snd t) = Some el) (timers st3) =
              filter (\<lambda>t. task_target (snd t) = Some el) (timers st2)
          \<and> filter (\<lambda>t. task_target t = Some el) (frames st3) =
              filter (\<lambda>t. task_target t = Some el) (frames st2)"
proof -
  define st where "st = run sc (DOMContentLoaded # FrameFires 0 # evs0) (fresh d)"
  define st1 where "st1 = step sc (Intersection entries) st"
  define st2 where "st2 = run sc evs st1"
  define st3 where "st3 = step sc (Intersection entries') st2"
  have st_eq: "st = run sc evs0 (step sc (FrameFires 0) (step sc DOMContentLoaded (fresh d)))"
    unfolding st_def by (simp only: run_Cons)
  have settled_st: "settled st"
    unfolding st_eq using settled_run [OF settled_init assms(1)] by simp
  have obs: "el \<in> set (observed st)"
    using assms(3) by (simp only: st_def)
  with settled_st obtain ob where ob: "observer st = Some ob"
    by (cases "observer st") (auto simp: settled_def)
  have "getAttribute (doc st ! el) n = getAttribute (d ! el) n" for n
    unfolding st_def by (simp only: run_getAttribute fresh_fields)
  then have "reveal_once (doc st ! el) = reveal_once (d ! el)"
    by (rule reveal_once_cong)
  with assms(4) have once: "reveal_once (doc st ! el)"
    by simp
  have st1_eq: "st1 = observer_callback (toNumber sc)
                        (filter (\<lambda>e. fst e \<in> set (observed st)) entries) st"
    by (simp add: st1_def ob)
  have "(el, True) \<in> set (filter (\<lambda>e. fst e \<in> set (observed st)) entries)"
    using assms(5) obs by simp
  then have o1: "el \<notin> set (observed st1)"
    unfolding st1_eq using once by (rule callback_unobserves)
  have "Intersection entries \<noteq> DOMContentLoaded" by simp
  from settled_step [OF settled_st this, of sc] have "settled st1"
    by (simp add: st1_def)
  from settled_run [OF this assms(2), of sc] o1 have o2: "el \<notin> set (observed st2)"
    by (auto simp: st2_def)
  from intersection_skips [OF o2, of sc entries'] o1 o2 show ?thesis
    unfolding Let_def st_def [symmetric] st1_def [symmetric] st2_def [symmetric]
      st3_def [symmetric]
    by simp
qed

lemma loaded_observed:
  assumes "\<not> prefersReduced sc"
  shows "set (observed (step sc (FrameFires 0) (step sc DOMContentLoaded (fresh d)))) =
           set (querySelectorAll [''data-reveal''] d)"
proof -
  have "querySelectorAll [''data-reveal''] (doc (runIntro (toNumber sc) False (fresh d))) =
          querySelectorAll [''data-reveal''] d"
    by (rule querySelectorAll_cong) simp_all
  then show ?thesis
    unfolding init_frame using assms by (simp add: setupReveals_observed)
qed

theorem once_revealed_never_again_witness:
  "DOMContentLoaded \<notin> set ([] :: event list) \<and> DOMContentLoaded \<notin> set [TimerFires 0]
   \<and> 3 \<in> set (observed (run usage_script [DOMContentLoaded, FrameFires 0] (fresh usage_page)))
   \<and> reveal_once (usage_page ! 3) \<and> (3, True) \<in> set [(3::nat, True)]
   \<and> 3 \<notin> set (observed (step usage_script (Intersection [(3, True)])
                  (run usage_script [DOMContentLoaded, FrameFires 0] (fresh usage_page))))
   \<and> 3 \<notin> set (observed (run usage_script [TimerFires 0]
                  (step usage_script (Intersection [(3, True)])
                    (run usage_script [DOMContentLoaded, FrameFires 0] (fresh usage_page)))))"
proof -
  have h1: "DOMContentLoaded \<notin> set ([] :: event list)" by simp
  have h2: "DOMContentLoaded \<notin> set [TimerFires 0]" by simp
  have "\<not> prefersReduced usage_script" by (simp add: usage_script_def)
  then have "set (observed (step usage_script (FrameFires 0)
                 (step usage_script DOMContentLoaded (fresh usage_page)))) =
             set (querySelectorAll [''data-reveal''] usage_page)"
    by (rule loaded_observed)
  moreover have "querySelectorAll [''data-reveal''] usage_page = [3]"
    by (simp add: querySelectorAll_def flagged_def getAttribute_def usage_page_def)
  ultimately have h3: "3 \<in> set (observed (run usage_script [DOMContentLoaded, FrameFires 0]
                                    (fresh usage_page)))"
    by (simp only: run_Cons run_Nil) simp
  have h4: "reveal_once (usage_page ! 3)"
    by (simp add: reveal_once_def usage_page_def getAttribute_def)
  have h5: "(3, True) \<in> set [(3::nat, True)]" by simp
  from once_revealed_never_again [OF h1 h2 h3 h4 h5, of "[]"] h1 h2 h3 h4 h5
  show ?thesis
    unfolding Let_def by blast
qed

subsection \<open>The change listener and the cleanup window\<close>

lemma run_task_subscription [simp]:
  "run_task (sc\<lparr>changeSubscribed := b\<rparr>) t st = run_task sc t st"
  by (cases t) simp_all

lemma step_subscription:
  "e \<noteq> ReducedMotionChange \<Longrightarrow> step (sc\<lparr>changeSubscribed := b\<rparr>) e st = step sc e st"
  by (cases e) (simp_all split: option.split)

lemma run_unsubscribed:
  "\<not> changeSubscribed sc \<Longrightarrow>
   run sc evs st =
     run (sc\<lparr>changeSubscribed := True\<rparr>) (filter (\<lambda>e. e \<noteq> ReducedMotionChange) evs) st"
proof (induction evs arbitrary: st)
  case Nil
  show ?case by simp
next
  case (Cons e evs)
  show ?case
  proof (cases "e = ReducedMotionChange")
    case True
    with Cons show ?thesis by simp
  next
    case False
    then have "step (sc\<lparr>changeSubscribed := True\<rparr>) e st = step sc e st"
      by (rule step_subscription)
    with False Cons show ?thesis by simp
  qed
qed

lemma on_change_reveals:
  assumes "el < length (doc st)" "flagged [''data-intro'', ''data-reveal''] (doc st ! el)"
  shows "end_state (style (doc (on_change st) ! el))"
proof -
  from assms have "el \<in> set (querySelectorAll [''data-intro'', ''data-reveal''] (doc st))"
    by (simp add: set_querySelectorAll)
  with assms(1) show ?thesis
    by (simp add: on_change_def showImmediately_reveals)
qed

text \<open>
  C8. When the preference-change handler runs, every element that is intro-flagged or
  reveal-flagged at that moment is in the end state (opacity 1, transform none) when the
  handler returns. When the listener cannot be attached, because the method is missing
  or throws, the script is evaluated all the same, with the same constants, and from
  then on behaves as the script with the listener does on a page that is never told of
  a change.
\<close>

theorem change_handler_best_effort:
  "(changeSubscribed sc \<longrightarrow>
      (\<forall>el < length (doc st). flagged [''data-intro'', ''data-reveal''] (doc st ! el) \<longrightarrow>
         opacity (style (doc (step sc ReducedMotionChange st) ! el)) = ''1''
         \<and> transform (style (doc (step sc ReducedMotionChange st) ! el)) = ''none''))
   \<and> (matchMedia h = Some mq \<and> addEventListener mq \<noteq> Supported \<longrightarrow>
        (let sc0 = \<lparr>toNumber = number h, prefersReduced = matches mq, changeSubscribed = False\<rparr>
         in load h = Inr sc0
          \<and> load (h\<lparr>matchMedia := Some (mq\<lparr>addEventListener := Supported\<rparr>)\<rparr>) =
              Inr (sc0\<lparr>changeSubscribed := True\<rparr>)
          \<and> run sc0 evs st =
              run (sc0\<lparr>changeSubscribed := True\<rparr>)
                (filter (\<lambda>e. e \<noteq> ReducedMotionChange) evs) st))"
proof -
  have a: "changeSubscribed sc \<longrightarrow>
      (\<forall>el < length (doc st). flagged [''data-intro'', ''data-reveal''] (doc st ! el) \<longrightarrow>
         opacity (style (doc (step sc ReducedMotionChange st) ! el)) = ''1''
         \<and> transform (style (doc (step sc ReducedMotionChange st) ! el)) = ''none'')"
    using on_change_reveals [of _ st] by (auto dest: end_stateD)
  define sc0 where
    "sc0 = \<lparr>toNumber = number h, prefersReduced = matches mq, changeSubscribed = False\<rparr>"
  have b1: "load h = Inr sc0" if "matchMedia h = Some mq" "addEventListener mq \<noteq> Supported"
    using that by (cases "addEventListener mq") (simp_all add: load_def sc0_def)
  have b2: "load (h\<lparr>matchMedia := Some (mq\<lparr>addEventListener := Supported\<rparr>)\<rparr>) =
              Inr (sc0\<lparr>changeSubscribed := True\<rparr>)"
    by (simp add: load_def sc0_def)
  have "\<not> changeSubscribed sc0" by (simp add: sc0_def)
  then have b3: "run sc0 evs st =
              run (sc0\<lparr>changeSubscribed := True\<rparr>)
                (filter (\<lambda>e. e \<noteq> ReducedMotionChange) evs) st"
    by (rule run_unsubscribed)
  show ?thesis
    unfolding Let_def sc0_def [symmetric] using a b1 b2 b3 by blast
qed

theorem change_handler_best_effort_witness:
  "changeSubscribed usage_script \<and> 0 < length (doc (fresh usage_page))
   \<and> flagged [''data-intro'', ''data-reveal''] (doc (fresh usage_page) ! 0)
   \<and> opacity (style (doc (step usage_script ReducedMotionChange (fresh usage_page)) ! 0)) = ''1''
   \<and> transform (style (doc (step usage_script ReducedMotionChange (fresh usage_page)) ! 0)) = ''none''
   \<and> matchMedia legacy_host = Some \<lparr>matches = False, addEventListener = Missing\<rparr>
   \<and> addEventListener \<lparr>matches = False, addEventListener = Missing\<rparr> \<noteq> Supported
   \<and> load legacy_host = Inr \<lparr>toNumber = decimal, prefersReduced = False, changeSubscribed = False\<rparr>"
proof -
  have h1: "changeSubscribed usage_script" by (simp add: usage_script_def)
  have h2: "0 < length (doc (fresh usage_page))"
    "flagged [''data-intro'', ''data-reveal''] (doc (fresh usage_page) ! 0)"
    by (simp_all add: usage_page_def flagged_def getAttribute_def)
  have h3: "matchMedia legacy_host = Some \<lparr>matches = False, addEventListener = Missing\<rparr>"
    "addEventListener \<lparr>matches = False, addEventListener = Missing\<rparr> \<noteq> Supported"
    "number legacy_host = decimal"
    by (simp_all add: legacy_host_def)
  from change_handler_best_effort [of usage_script "fresh usage_page" legacy_host
      "\<lparr>matches = False, addEventListener = Missing\<rparr>" "[]"] h1 h2 h3
  show ?thesis
    unfolding Let_def by (simp del: step.simps)
qed

text \<open>
  C7. The cleanup window of 1100 is meant to exceed duration plus delay of every
  animation. On the page of the script's own usage comment it does not: the second intro
  element gets the delay 220 and the duration 900, and the callback that starts its
  animation sets the 1100 cleanup timer at the same moment.
\<close>

theorem cleanup_window_exceeded:
  "(let st1 = runIntro decimal False (fresh usage_page);
        st2 = step usage_script (TimerFires 1) st1
    in timers st1 ! 1 = (20, IntroKick 1 (Fin 220) 900)
     \<and> frames st2 = [AnimateFrame 1 (Fin 220) 900 default_easing]
     \<and> last (timers st2) = (1100, ClearStyles 1))
   \<and> js_less (Fin 1100) (Fin (900 + 220))"
proof -
  have d: "getAttribute (usage_page ! 0) ''data-intro-delay'' = None"
    "getAttribute (usage_page ! Suc 0) ''data-intro-delay'' = None"
    "getAttribute (usage_page ! 2) ''data-intro-delay'' = None"
    by (simp_all add: usage_page_def getAttribute_def)
  have t: "timers (runIntro decimal False (fresh usage_page)) =
            [(20, IntroKick 0 (Fin 0) 900), (20, IntroKick 1 (Fin 220) 900),
             (20, IntroKick 2 (Fin 440) 900)]"
    by (simp add: runIntro_timers usage_intro_nodes enumerate_eq_zip intro_delay_def d
        baseDuration_def baseStagger_def)
  show ?thesis
    by (simp add: Let_def t drop_nth_def animateIn_frames)
qed

end
